theory Spec2Isabelle
  imports Main "HOL-Library.Word"
begin

section \<open>The quota iterator of the scheduler (scheduler/stack\_ent.go)\<close>

text \<open>
  The embedding follows \<^verbatim>\<open>scheduler/stack_ent.go\<close>: the fields of
  \<^verbatim>\<open>QuotaIterator\<close> are a record, a Go pointer is an \<open>option\<close> (\<open>None\<close> is
  \<^verbatim>\<open>nil\<close>), the quota limits that the code reaches through pointers and mutates in place
  live in an explicit store, the scheduling context (state store, plan, logger, metrics,
  eligibility) is passed explicitly, and a nil dereference is the error value of a sum.
  The package \<^verbatim>\<open>nomad/structs\<close> is not part of the sources at hand; what the iterator
  uses of it is modelled from the specification and marked so.
\<close>

subsection \<open>Resources and task groups\<close>

text \<open>
  Modelled from the spec: \<^verbatim>\<open>structs.Resources\<close>, the resource vector. The scalar
  dimensions CPU, memory and disk are kept; each amount is a Go \<^verbatim>\<open>int\<close> (64 bits,
  two's complement, addition wraps around).
\<close>

record Resources =
  CPU :: "64 word"
  MemoryMB :: "64 word"
  DiskMB :: "64 word"

text \<open>
  Modelled from the spec: \<^verbatim>\<open>Resources.Add\<close>, which adds a resource request to the
  receiver, dimension by dimension (``the sum of every task's declared resource request'').
\<close>

definition Resources_Add :: "Resources \<Rightarrow> Resources \<Rightarrow> Resources" where
  "Resources_Add r delta =
     \<lparr>CPU = CPU r + CPU delta,
      MemoryMB = MemoryMB r + MemoryMB delta,
      DiskMB = DiskMB r + DiskMB delta\<rparr>"

text \<open>
  Modelled from the spec: the parts of a task group that the iterator reads, namely the
  resource request of each task and the size of the ephemeral disk.
\<close>

record Task =
  Task_Resources :: Resources

record EphemeralDisk =
  SizeMB :: "64 word"

record TaskGroup =
  TaskGroup_EphemeralDisk :: EphemeralDisk
  Tasks :: "Task list"

text \<open>
  \<^verbatim>\<open>combinedResources\<close> (lines 168--177): a fresh \<^verbatim>\<open>Resources\<close> whose only
  non-zero field is the disk size, then one \<^verbatim>\<open>r.Add(task.Resources)\<close> per task, in
  the order of \<^verbatim>\<open>tg.Tasks\<close>.
\<close>

fun add_tasks :: "Resources \<Rightarrow> Task list \<Rightarrow> Resources" where
  "add_tasks r [] = r"
| "add_tasks r (task # tasks) = add_tasks (Resources_Add r (Task_Resources task)) tasks"

definition combinedResources :: "TaskGroup \<Rightarrow> Resources" where
  "combinedResources tg =
     add_tasks \<lparr>CPU = 0, MemoryMB = 0, DiskMB = SizeMB (TaskGroup_EphemeralDisk tg)\<rparr> (Tasks tg)"

subsection \<open>Quota limits, specifications and usage\<close>

text \<open>
  Modelled from the spec: \<^verbatim>\<open>structs.QuotaLimit\<close>, a limit scoped to a region and
  identified by the hash of its scoping dimensions. The bounds (or, in a usage record, the
  amounts consumed) are a resource vector.
\<close>

record QuotaLimit =
  Region :: string
  RegionLimit :: Resources
  Hash :: string

text \<open>
  The iterator holds \<^verbatim>\<open>*QuotaLimit\<close> pointers into usage records and adds resources
  to such objects in place. These objects live in a store: an address is a natural number,
  \<open>free\<close> is the next address to be handed out, and every address below it is allocated.
  Go has no dangling pointers, so the addresses a well-formed iterator holds are below
  \<open>free\<close> (see \<open>valid\<close> below).
\<close>

type_synonym addr = nat

record Store =
  cells :: "addr \<Rightarrow> QuotaLimit"
  free :: addr

definition alloc :: "Store \<Rightarrow> QuotaLimit \<Rightarrow> addr \<times> Store" where
  "alloc h v = (free h, h\<lparr>cells := (cells h)(free h := v), free := Suc (free h)\<rparr>)"

text \<open>
  Modelled from the spec: \<^verbatim>\<open>QuotaLimit.Copy\<close> (``a working copy of the applicable
  limit's current value''), a new object with the contents of the receiver.
\<close>

definition QuotaLimit_Copy :: "Store \<Rightarrow> addr \<Rightarrow> addr \<times> Store" where
  "QuotaLimit_Copy h l = alloc h (cells h l)"

text \<open>
  Modelled from the spec: \<^verbatim>\<open>QuotaLimit.AddResource\<close> (``then add the Task Group
  Footprint to it''), which adds a resource vector to the receiver in place.
\<close>

definition AddResource :: "Store \<Rightarrow> addr \<Rightarrow> Resources \<Rightarrow> Store" where
  "AddResource h l r =
     h\<lparr>cells := (cells h)(l := (cells h l)\<lparr>RegionLimit := Resources_Add (RegionLimit (cells h l)) r\<rparr>)\<rparr>"

text \<open>
  Modelled from the spec: \<^verbatim>\<open>QuotaLimit.Superset\<close> (``true if the looked-up limit's
  bounds are greater than or equal to the candidate-inclusive proposed value in every
  resource dimension. If false, return the specific set of dimensions that would be
  exceeded''). The amounts are signed, so the comparison is the signed one.
\<close>

datatype dimension = DimCPU | DimMemory | DimDisk

definition exceeded :: "Resources \<Rightarrow> Resources \<Rightarrow> dimension list" where
  "exceeded limit other =
     (if CPU other \<le>s CPU limit then [] else [DimCPU]) @
     (if MemoryMB other \<le>s MemoryMB limit then [] else [DimMemory]) @
     (if DiskMB other \<le>s DiskMB limit then [] else [DimDisk])"

definition Superset :: "Store \<Rightarrow> QuotaLimit \<Rightarrow> addr \<Rightarrow> bool \<times> dimension list" where
  "Superset h q other =
     (let dimensions = exceeded (RegionLimit q) (RegionLimit (cells h other))
      in (dimensions = [], dimensions))"

text \<open>
  Modelled from the spec: \<^verbatim>\<open>structs.QuotaSpec\<close>, a named quota and its limits. The
  iterator never writes to the limits of a specification, so they are held by value.
  \<^verbatim>\<open>LimitsMap\<close> is ``its limit mapping (keyed by scoping hash)''; of two limits with
  the same hash the later one stays.
\<close>

record QuotaSpec =
  QuotaSpec_Name :: string
  Limits :: "QuotaLimit list"

definition LimitsMap :: "QuotaSpec \<Rightarrow> (string \<rightharpoonup> QuotaLimit)" where
  "LimitsMap q = map_of (rev (map (\<lambda>l. (Hash l, l)) (Limits q)))"

text \<open>
  Modelled from the spec: \<^verbatim>\<open>structs.QuotaUsage\<close>, ``keyed the same way as limits,
  holding currently-consumed resources per limit-hash''. \<^verbatim>\<open>Used\<close> is a Go map from the
  hash to a \<^verbatim>\<open>*QuotaLimit\<close>: a list of pairs of a key and the address of the object.
\<close>

record QuotaUsage =
  QuotaUsage_Name :: string
  Used :: "(string \<times> addr) list"

text \<open>
  Modelled from the spec: \<^verbatim>\<open>QuotaUsage.Copy\<close> (``copying Actual Usage''), a new usage
  record whose limits are new objects with the contents of the old ones.
\<close>

fun copy_used :: "Store \<Rightarrow> (string \<times> addr) list \<Rightarrow> (string \<times> addr) list \<times> Store" where
  "copy_used h [] = ([], h)"
| "copy_used h ((k, l) # used) =
     (let (l', h1) = QuotaLimit_Copy h l;
          (used', h2) = copy_used h1 used
      in ((k, l') # used', h2))"

definition QuotaUsage_Copy :: "Store \<Rightarrow> QuotaUsage \<Rightarrow> QuotaUsage \<times> Store" where
  "QuotaUsage_Copy h u = (let (used', h') = copy_used h (Used u) in (u\<lparr>Used := used'\<rparr>, h'))"

text \<open>
  Modelled from the spec: the in-flight plan as the usage projection reads it, a list of
  allocations, each with the hash of the limit it counts against and its footprint; and
  \<^verbatim>\<open>structs.UpdateUsageFromPlan\<close> (``applies every allocation currently present in the
  scheduler's working plan, incrementing the relevant limit-hash's consumed resources by
  each such allocation's footprint''), which updates the limits of the usage record in
  place.
\<close>

record PlanAlloc =
  Alloc_Hash :: string
  Alloc_Resources :: Resources

fun UpdateUsageFromPlan :: "Store \<Rightarrow> QuotaUsage \<Rightarrow> PlanAlloc list \<Rightarrow> Store" where
  "UpdateUsageFromPlan h usage [] = h"
| "UpdateUsageFromPlan h usage (allocation # plan) =
     UpdateUsageFromPlan
       (case map_of (Used usage) (Alloc_Hash allocation) of
          None \<Rightarrow> h
        | Some l \<Rightarrow> AddResource h l (Alloc_Resources allocation))
       usage plan"

subsection \<open>The scheduling context\<close>

text \<open>
  Modelled from the spec: the jobs, namespaces and nodes, as far as the iterator reads
  them, and the state accessor with its three point lookups, ``each returning (value,
  error) with a nil value meaning not found distinct from an error'': \<open>Inl e\<close> is the
  error \<open>e\<close>, \<open>Inr None\<close> is not found.
\<close>

record Job =
  Job_ID :: string
  Job_Namespace :: string

record Namespace =
  Namespace_Name :: string
  Namespace_Quota :: string

record Node =
  Node_ID :: string

record StateEnterprise =
  NamespaceByName :: "string \<Rightarrow> string + Namespace option"
  QuotaSpecByName :: "string \<Rightarrow> string + QuotaSpec option"
  QuotaUsageByName :: "string \<Rightarrow> string + QuotaUsage option"

text \<open>
  The errors that \<^verbatim>\<open>SetJob\<close> builds with \<^verbatim>\<open>fmt.Errorf\<close> (lines 60, 64, 78, 82, 90
  and 94), one constructor per format string, with the arguments in the order of the call.
\<close>

datatype build_error =
  NamespaceLookupFailed string string string
| UnknownNamespace string string
| QuotaLookupFailed string string
| UnknownQuota string string
| QuotaUsageLookupFailed string string
| UnknownQuotaUsage string

text \<open>
  Modelled from the spec: the scheduling context, that is the state store, the plan, and
  what the iterator has sent to the logger (error level, message and error), to the
  metrics (\<^verbatim>\<open>ExhaustQuota\<close>) and to the eligibility tracker
  (\<^verbatim>\<open>SetQuotaLimitReached\<close>), each in the order of the calls.
\<close>

record Context =
  State :: StateEnterprise
  Plan :: "PlanAlloc list"
  Logger :: "(string \<times> build_error) list"
  Metrics :: "dimension list list"
  Eligibility :: "string list"

definition Logger_Error :: "string \<Rightarrow> build_error \<Rightarrow> Context \<Rightarrow> Context" where
  "Logger_Error msg e c = c\<lparr>Logger := Logger c @ [(msg, e)]\<rparr>"

definition ExhaustQuota :: "dimension list \<Rightarrow> Context \<Rightarrow> Context" where
  "ExhaustQuota dimensions c = c\<lparr>Metrics := Metrics c @ [dimensions]\<rparr>"

definition SetQuotaLimitReached :: "string \<Rightarrow> Context \<Rightarrow> Context" where
  "SetQuotaLimitReached name c = c\<lparr>Eligibility := Eligibility c @ [name]\<rparr>"

subsection \<open>The iterator\<close>

text \<open>
  The fields of \<^verbatim>\<open>QuotaIterator\<close> (lines 14--35) but \<^verbatim>\<open>ctx\<close> and \<^verbatim>\<open>source\<close>,
  which are shared with the rest of the scheduler and are part of the world below.
\<close>

record QuotaIterator =
  buildErr :: "build_error option"
  iter_combinedResources :: "Resources option"
  job :: "Job option"
  quota :: "QuotaSpec option"
  quotaLimits :: "(string \<rightharpoonup> QuotaLimit) option"
  actUsage :: "QuotaUsage option"
  proposedUsage :: "QuotaUsage option"
  proposedLimit :: "addr option"

text \<open>
  The upstream iterator is any implementation of \<^verbatim>\<open>FeasibleIterator\<close>: a state of
  its own and the two methods.
\<close>

record 's FeasibleIterator =
  source_Next :: "'s \<Rightarrow> Node option \<times> 's"
  source_Reset :: "'s \<Rightarrow> 's"

record 's World =
  iter :: QuotaIterator
  ctx :: Context
  store :: Store
  source :: 's

datatype panic = NilPointerDereference

text \<open>\<^verbatim>\<open>NewQuotaIterator\<close> (lines 38--43): every other field has its zero value.\<close>

definition NewQuotaIterator :: QuotaIterator where
  "NewQuotaIterator =
     \<lparr>buildErr = None, iter_combinedResources = None, job = None, quota = None,
      quotaLimits = None, actUsage = None, proposedUsage = None, proposedLimit = None\<rparr>"

text \<open>\<^verbatim>\<open>SetTaskGroup\<close> (lines 49--51).\<close>

definition SetTaskGroup :: "TaskGroup \<Rightarrow> 's World \<Rightarrow> 's World" where
  "SetTaskGroup tg w = w\<lparr>iter := (iter w)\<lparr>iter_combinedResources := Some (combinedResources tg)\<rparr>\<rparr>"

text \<open>
  \<^verbatim>\<open>SetJob\<close> (lines 53--108). \<open>build_failed\<close> is the pair of statements that every
  failure branch runs before it returns: store the error, log it. The job is a value (the
  callers pass a non-nil job), and the state of the context is the enterprise state that
  the type assertion of line 57 expects.
\<close>

definition build_failed :: "string \<Rightarrow> build_error \<Rightarrow> 's World \<Rightarrow> 's World" where
  "build_failed msg e w =
     w\<lparr>iter := (iter w)\<lparr>buildErr := Some e\<rparr>, ctx := Logger_Error msg e (ctx w)\<rparr>"

definition SetJob :: "Job \<Rightarrow> 's World \<Rightarrow> 's World" where
  "SetJob j w0 =
     (let w = w0\<lparr>iter := (iter w0)\<lparr>job := Some j\<rparr>\<rparr>;
          state = State (ctx w)
      in case NamespaceByName state (Job_Namespace j) of
           Inl err \<Rightarrow>
             build_failed ''scheduler.QuotaIterator''
               (NamespaceLookupFailed (Job_ID j) (Job_Namespace j) err) w
         | Inr None \<Rightarrow>
             build_failed ''scheduler.QuotaIterator ''
               (UnknownNamespace (Job_Namespace j) (Job_ID j)) w
         | Inr (Some namespace) \<Rightarrow>
             if Namespace_Quota namespace = [] then w
             else case QuotaSpecByName state (Namespace_Quota namespace) of
               Inl err \<Rightarrow>
                 build_failed ''scheduler.QuotaIterator''
                   (QuotaLookupFailed (Namespace_Quota namespace) err) w
             | Inr None \<Rightarrow>
                 build_failed ''scheduler.QuotaIterator''
                   (UnknownQuota (Namespace_Quota namespace) (Namespace_Name namespace)) w
             | Inr (Some q) \<Rightarrow>
                 (case QuotaUsageByName state (Namespace_Quota namespace) of
                    Inl err \<Rightarrow>
                      build_failed ''scheduler.QuotaIterator''
                        (QuotaUsageLookupFailed (Namespace_Quota namespace) err) w
                  | Inr None \<Rightarrow>
                      build_failed ''scheduler.QuotaIterator''
                        (UnknownQuotaUsage (Namespace_Quota namespace)) w
                  | Inr (Some usage) \<Rightarrow>
                      if Used usage = [] then w
                      else w\<lparr>iter := (iter w)\<lparr>quota := Some q,
                                               quotaLimits := Some (LimitsMap q),
                                               actUsage := Some usage\<rparr>\<rparr>))"

text \<open>
  \<^verbatim>\<open>Next\<close> (lines 113--145). Line 119 is the pass-through test. After it, lines 126 to
  130 go through \<^verbatim>\<open>iter.proposedLimit\<close> (copy it, add to the copy, read the hash of the
  copy), so a nil \<^verbatim>\<open>proposedLimit\<close> is a nil dereference at line 130 at the latest;
  \<^verbatim>\<open>AddResource\<close> reads the amounts of its argument, and \<^verbatim>\<open>Superset\<close> the bounds of
  its receiver, which a lookup that finds nothing in the Go map leaves nil.
\<close>

definition Next :: "'s FeasibleIterator \<Rightarrow> 's World \<Rightarrow> panic + (Node option \<times> 's World)" where
  "Next src w0 =
     (let (option, s) = source_Next src (source w0);
          w = w0\<lparr>source := s\<rparr>;
          it = iter w
      in case (option, quota it, buildErr it) of
           (Some node, Some spec, None) \<Rightarrow>
             (case (proposedLimit it, iter_combinedResources it) of
                (None, _) \<Rightarrow> Inl NilPointerDereference
              | (Some l, None) \<Rightarrow> Inl NilPointerDereference
              | (Some l, Some r) \<Rightarrow>
                  (let (proposedLimitCopy, h1) = QuotaLimit_Copy (store w) l;
                       h2 = AddResource h1 proposedLimitCopy r;
                       w' = w\<lparr>store := h2\<rparr>
                   in case (case quotaLimits it of
                              None \<Rightarrow> None
                            | Some m \<Rightarrow> m (Hash (cells h2 proposedLimitCopy))) of
                        None \<Rightarrow> Inl NilPointerDereference
                      | Some quotaLimit \<Rightarrow>
                          (let (superset, dimensions) = Superset h2 quotaLimit proposedLimitCopy
                           in if superset then Inr (option, w')
                              else Inr (None,
                                     w'\<lparr>ctx := SetQuotaLimitReached (QuotaSpec_Name spec)
                                                 (ExhaustQuota dimensions (ctx w'))\<rparr>))))
         | _ \<Rightarrow> Inr (option, w))"

text \<open>
  \<^verbatim>\<open>Reset\<close> (lines 150--166). The loop of lines 163--165 ranges over a Go map, whose
  iteration order the language leaves open: \<open>visit\<close> is the order in which this execution
  of the loop visits the keys, and \<open>range_assign\<close> runs the loop body on them. A nil
  \<^verbatim>\<open>actUsage\<close> has no copy to range over: line 163 reads \<^verbatim>\<open>Used\<close> through it.
\<close>

fun range_assign :: "string list \<Rightarrow> (string \<times> addr) list \<Rightarrow> addr option \<Rightarrow> addr option" where
  "range_assign [] used l = l"
| "range_assign (k # visit) used l =
     range_assign visit used (case map_of used k of None \<Rightarrow> l | Some l' \<Rightarrow> Some l')"

definition Reset :: "'s FeasibleIterator \<Rightarrow> string list \<Rightarrow> 's World \<Rightarrow> panic + 's World" where
  "Reset src visit w0 =
     (let w = w0\<lparr>source := source_Reset src (source w0)\<rparr>;
          it = iter w
      in if quota it = None then Inr w
         else case actUsage it of
           None \<Rightarrow> Inl NilPointerDereference
         | Some usage \<Rightarrow>
             (let (proposed, h1) = QuotaUsage_Copy (store w) usage;
                  h2 = UpdateUsageFromPlan h1 proposed (Plan (ctx w))
              in Inr (w\<lparr>store := h2,
                        iter := it\<lparr>proposedUsage := Some proposed,
                                   proposedLimit := range_assign visit (Used proposed) (proposedLimit it)\<rparr>\<rparr>)))"

subsection \<open>Runs, well-formed worlds and observations\<close>

text \<open>
  A run is a sequence of calls on a configured iterator; \<open>run\<close> collects what the calls
  of \<^verbatim>\<open>Next\<close> return and stops at a panic. \<open>run_source\<close> is the same sequence as the
  upstream iterator alone sees it: its \<^verbatim>\<open>Next\<close> and \<^verbatim>\<open>Reset\<close> are called once for
  each call of the quota iterator's.
\<close>

datatype call = CallNext | CallReset "string list" | CallSetTaskGroup TaskGroup

fun run :: "'s FeasibleIterator \<Rightarrow> call list \<Rightarrow> 's World \<Rightarrow> panic + (Node option list \<times> 's World)" where
  "run src [] w = Inr ([], w)"
| "run src (CallNext # calls) w =
     (case Next src w of
        Inl e \<Rightarrow> Inl e
      | Inr (option, w1) \<Rightarrow>
          (case run src calls w1 of
             Inl e \<Rightarrow> Inl e
           | Inr (options, w2) \<Rightarrow> Inr (option # options, w2)))"
| "run src (CallReset visit # calls) w =
     (case Reset src visit w of Inl e \<Rightarrow> Inl e | Inr w1 \<Rightarrow> run src calls w1)"
| "run src (CallSetTaskGroup tg # calls) w = run src calls (SetTaskGroup tg w)"

fun run_source :: "'s FeasibleIterator \<Rightarrow> call list \<Rightarrow> 's \<Rightarrow> Node option list \<times> 's" where
  "run_source src [] s = ([], s)"
| "run_source src (CallNext # calls) s =
     (let (option, s1) = source_Next src s;
          (options, s2) = run_source src calls s1
      in (option # options, s2))"
| "run_source src (CallReset visit # calls) s = run_source src calls (source_Reset src s)"
| "run_source src (CallSetTaskGroup tg # calls) s = run_source src calls s"

text \<open>
  What \<^verbatim>\<open>SetJob\<close> tests after each lookup: an error or a nil value. \<open>resolution_fails\<close>
  holds when one of the lookups that \<^verbatim>\<open>SetJob\<close> makes for the job fails so.
\<close>

definition lookup_failed :: "string + 'a option \<Rightarrow> bool" where
  "lookup_failed r = (case r of Inl err \<Rightarrow> True | Inr None \<Rightarrow> True | Inr (Some v) \<Rightarrow> False)"

definition resolution_fails :: "StateEnterprise \<Rightarrow> Job \<Rightarrow> bool" where
  "resolution_fails state j =
     (case NamespaceByName state (Job_Namespace j) of
        Inr (Some namespace) \<Rightarrow>
          Namespace_Quota namespace \<noteq> [] \<and>
          (case QuotaSpecByName state (Namespace_Quota namespace) of
             Inr (Some q) \<Rightarrow> lookup_failed (QuotaUsageByName state (Namespace_Quota namespace))
           | _ \<Rightarrow> True)
      | _ \<Rightarrow> True)"

text \<open>
  The pointers of a well-formed iterator refer to allocated objects.
\<close>

definition usage_valid :: "Store \<Rightarrow> QuotaUsage option \<Rightarrow> bool" where
  "usage_valid h usage =
     (case usage of
        None \<Rightarrow> True
      | Some u \<Rightarrow> list_all (\<lambda>(k, l). l < free h) (Used u))"

definition valid :: "'s World \<Rightarrow> bool" where
  "valid w =
     (usage_valid (store w) (actUsage (iter w)) \<and>
      usage_valid (store w) (proposedUsage (iter w)) \<and>
      (case proposedLimit (iter w) of None \<Rightarrow> True | Some l \<Rightarrow> l < free (store w)))"

text \<open>
  The iterator enforces a quota when \<^verbatim>\<open>SetJob\<close> has stored the specification, its
  limits and the usage, and no error.
\<close>

definition enforcing :: "QuotaIterator \<Rightarrow> bool" where
  "enforcing it =
     (quota it \<noteq> None \<and> quotaLimits it \<noteq> None \<and> actUsage it \<noteq> None \<and> buildErr it = None)"

text \<open>
  Observations, with the pointers followed: the applicable limit and the proposed usage as
  values, and what a call returns, a candidate or a panic, without the world.
\<close>

definition applicable_limit :: "'s World \<Rightarrow> QuotaLimit option" where
  "applicable_limit w = map_option (cells (store w)) (proposedLimit (iter w))"

definition usage_contents :: "Store \<Rightarrow> QuotaUsage option \<Rightarrow> (string \<times> (string \<times> QuotaLimit) list) option" where
  "usage_contents h usage =
     map_option (\<lambda>u. (QuotaUsage_Name u, map (\<lambda>(k, l). (k, cells h l)) (Used u))) usage"

definition returned :: "panic + ('a \<times> 's World) \<Rightarrow> panic + 'a" where
  "returned r = map_sum id fst r"

definition effects :: "panic + ('a \<times> 's World) \<Rightarrow> panic + (dimension list list \<times> string list)" where
  "effects r = map_sum id (\<lambda>(x, w). (Metrics (ctx w), Eligibility (ctx w))) r"

text \<open>
  The limit evaluator (section 4.4 of the specification) on values: what \<^verbatim>\<open>Next\<close>
  returns, given the fields of the iterator, the applicable limit as a value and the
  candidate of the upstream iterator. It is compared with \<^verbatim>\<open>Next\<close> in
  \<open>Next_returned\<close> below.
\<close>

definition limit_check :: "QuotaIterator \<Rightarrow> QuotaLimit option \<Rightarrow> Node option \<Rightarrow> panic + Node option" where
  "limit_check it applicable option =
     (if option = None \<or> quota it = None \<or> buildErr it \<noteq> None then Inr option
      else case (applicable, iter_combinedResources it) of
        (None, _) \<Rightarrow> Inl NilPointerDereference
      | (Some l, None) \<Rightarrow> Inl NilPointerDereference
      | (Some l, Some r) \<Rightarrow>
          (case (case quotaLimits it of None \<Rightarrow> None | Some m \<Rightarrow> m (Hash l)) of
             None \<Rightarrow> Inl NilPointerDereference
           | Some quotaLimit \<Rightarrow>
               if exceeded (RegionLimit quotaLimit) (Resources_Add (RegionLimit l) r) = []
               then Inr option else Inr None))"

subsection \<open>Scenarios\<close>

text \<open>
  A state store with these namespaces: \<open>default\<close> has the quota \<open>q\<close> with the limit
  \<open>{CPU: 1000}\<close> and the usage \<open>{CPU: 400}\<close> (stored at address 0); \<open>open\<close> has no
  quota; \<open>idle\<close> has the quota \<open>q0\<close>, whose usage record holds no limit; \<open>wide\<close> has
  the quota \<open>q2\<close> with two limits \<open>a\<close> and \<open>b\<close> of \<open>{CPU: 1000}\<close> each and the usages
  \<open>{CPU: 400}\<close> and \<open>{CPU: 900}\<close> (addresses 1 and 2); \<open>stale\<close> has the quota \<open>q3\<close>,
  whose usage is keyed by a hash that no limit of the specification has; \<open>orphan\<close> has
  the quota \<open>q4\<close>, which has a specification and no usage record; the lookup of
  \<open>broken\<close> fails with an error; any other namespace is not found. The plan holds one
  allocation of \<open>{CPU: 200}\<close> against the limit \<open>h\<close>.
\<close>

definition cpu :: "64 word \<Rightarrow> Resources" where
  "cpu c = \<lparr>CPU = c, MemoryMB = 0, DiskMB = 0\<rparr>"

definition limit :: "string \<Rightarrow> 64 word \<Rightarrow> QuotaLimit" where
  "limit h c = \<lparr>Region = ''global'', RegionLimit = cpu c, Hash = h\<rparr>"

definition scenario_state :: StateEnterprise where
  "scenario_state =
     \<lparr>NamespaceByName = (\<lambda>n.
        if n = ''default'' then Inr (Some \<lparr>Namespace_Name = n, Namespace_Quota = ''q''\<rparr>)
        else if n = ''open'' then Inr (Some \<lparr>Namespace_Name = n, Namespace_Quota = []\<rparr>)
        else if n = ''idle'' then Inr (Some \<lparr>Namespace_Name = n, Namespace_Quota = ''q0''\<rparr>)
        else if n = ''wide'' then Inr (Some \<lparr>Namespace_Name = n, Namespace_Quota = ''q2''\<rparr>)
        else if n = ''stale'' then Inr (Some \<lparr>Namespace_Name = n, Namespace_Quota = ''q3''\<rparr>)
        else if n = ''orphan'' then Inr (Some \<lparr>Namespace_Name = n, Namespace_Quota = ''q4''\<rparr>)
        else if n = ''broken'' then Inl ''timeout''
        else Inr None),
      QuotaSpecByName = (\<lambda>n.
        if n = ''q'' then Inr (Some \<lparr>QuotaSpec_Name = n, Limits = [limit ''h'' 1000]\<rparr>)
        else if n = ''q0'' then Inr (Some \<lparr>QuotaSpec_Name = n, Limits = [limit ''h'' 1000]\<rparr>)
        else if n = ''q2'' then
          Inr (Some \<lparr>QuotaSpec_Name = n, Limits = [limit ''a'' 1000, limit ''b'' 1000]\<rparr>)
        else if n = ''q3'' then Inr (Some \<lparr>QuotaSpec_Name = n, Limits = [limit ''h'' 1000]\<rparr>)
        else if n = ''q4'' then Inr (Some \<lparr>QuotaSpec_Name = n, Limits = [limit ''h'' 1000]\<rparr>)
        else Inr None),
      QuotaUsageByName = (\<lambda>n.
        if n = ''q'' then Inr (Some \<lparr>QuotaUsage_Name = n, Used = [(''h'', 0)]\<rparr>)
        else if n = ''q0'' then Inr (Some \<lparr>QuotaUsage_Name = n, Used = []\<rparr>)
        else if n = ''q2'' then Inr (Some \<lparr>QuotaUsage_Name = n, Used = [(''a'', 1), (''b'', 2)]\<rparr>)
        else if n = ''q3'' then Inr (Some \<lparr>QuotaUsage_Name = n, Used = [(''x'', 3)]\<rparr>)
        else Inr None)\<rparr>"

definition scenario_store :: Store where
  "scenario_store =
     \<lparr>cells = (\<lambda>a. if a = 0 then limit ''h'' 400
                   else if a = 1 then limit ''a'' 400
                   else if a = 2 then limit ''b'' 900
                   else limit ''x'' 400),
      free = 4\<rparr>"

definition scenario_world :: "nat World" where
  "scenario_world =
     \<lparr>iter = NewQuotaIterator,
      ctx = \<lparr>State = scenario_state,
             Plan = [\<lparr>Alloc_Hash = ''h'', Alloc_Resources = cpu 200\<rparr>],
             Logger = [], Metrics = [], Eligibility = []\<rparr>,
      store = scenario_store,
      source = 0\<rparr>"

text \<open>
  The upstream iterator of the scenarios yields the nodes \<open>n0\<close>, \<open>n1\<close> and \<open>n2\<close> and then
  nothing; its state is the number of candidates handed out since the last reset.
\<close>

definition scenario_node :: "nat \<Rightarrow> Node option" where
  "scenario_node i =
     (if i = 0 then Some \<lparr>Node_ID = ''n0''\<rparr>
      else if i = 1 then Some \<lparr>Node_ID = ''n1''\<rparr>
      else if i = 2 then Some \<lparr>Node_ID = ''n2''\<rparr>
      else None)"

definition scenario_source :: "nat FeasibleIterator" where
  "scenario_source =
     \<lparr>source_Next = (\<lambda>i. (scenario_node i, Suc i)), source_Reset = (\<lambda>i. 0)\<rparr>"

definition scenario_job :: "string \<Rightarrow> Job" where
  "scenario_job n = \<lparr>Job_ID = ''job'', Job_Namespace = n\<rparr>"

definition scenario_tg :: "64 word \<Rightarrow> TaskGroup" where
  "scenario_tg c =
     \<lparr>TaskGroup_EphemeralDisk = \<lparr>SizeMB = 0\<rparr>, Tasks = [\<lparr>Task_Resources = cpu c\<rparr>]\<rparr>"

text \<open>
  The iterator configured for a job of the namespace \<open>n\<close> and a task group that asks for
  \<open>c\<close> CPU; and the same after one \<^verbatim>\<open>Reset\<close> that visits the keys in the order
  \<open>visit\<close>.
\<close>

definition configured :: "string \<Rightarrow> 64 word \<Rightarrow> nat World" where
  "configured n c = SetTaskGroup (scenario_tg c) (SetJob (scenario_job n) scenario_world)"

definition after_reset :: "string \<Rightarrow> 64 word \<Rightarrow> string list \<Rightarrow> nat World" where
  "after_reset n c visit = projr (Reset scenario_source visit (configured n c))"

section \<open>Properties\<close>

lemmas scenario_defs =
  after_reset_def configured_def scenario_tg_def scenario_job_def scenario_source_def
  scenario_node_def scenario_world_def scenario_store_def scenario_state_def limit_def cpu_def

lemmas model_defs =
  Reset_def Next_def SetJob_def SetTaskGroup_def NewQuotaIterator_def build_failed_def
  combinedResources_def Resources_Add_def QuotaUsage_Copy_def QuotaLimit_Copy_def alloc_def
  AddResource_def Superset_def exceeded_def LimitsMap_def ExhaustQuota_def
  SetQuotaLimitReached_def Logger_Error_def returned_def effects_def

subsection \<open>The resource aggregator\<close>

lemma add_tasks_sum:
  "add_tasks r ts =
     \<lparr>CPU = CPU r + sum_list (map (\<lambda>t. CPU (Task_Resources t)) ts),
      MemoryMB = MemoryMB r + sum_list (map (\<lambda>t. MemoryMB (Task_Resources t)) ts),
      DiskMB = DiskMB r + sum_list (map (\<lambda>t. DiskMB (Task_Resources t)) ts)\<rparr>"
  by (induction ts arbitrary: r) (simp_all add: Resources_Add_def add.assoc)

text \<open>
  Claim C8. For every task group, \<^verbatim>\<open>combinedResources\<close> is the sum of the resource
  requests of the tasks, with the size of the ephemeral disk added in the disk dimension
  (sums of Go integers, which wrap around); it is a total function, and
  \<^verbatim>\<open>SetTaskGroup\<close> changes nothing but the stored footprint.
\<close>

theorem combinedResources_is_sum:
  "combinedResources tg =
     \<lparr>CPU = sum_list (map (\<lambda>t. CPU (Task_Resources t)) (Tasks tg)),
      MemoryMB = sum_list (map (\<lambda>t. MemoryMB (Task_Resources t)) (Tasks tg)),
      DiskMB = SizeMB (TaskGroup_EphemeralDisk tg)
               + sum_list (map (\<lambda>t. DiskMB (Task_Resources t)) (Tasks tg))\<rparr>
   \<and> SetTaskGroup tg w
       = w\<lparr>iter := (iter w)\<lparr>iter_combinedResources := Some (combinedResources tg)\<rparr>\<rparr>"
  by (simp add: combinedResources_def add_tasks_sum SetTaskGroup_def)

subsection \<open>The two scenarios of the limit check\<close>

text \<open>
  Claim C1. With the limit \<open>{CPU: 1000}\<close>, the actual usage \<open>{CPU: 400}\<close> and a plan that
  contributes \<open>{CPU: 200}\<close>, after \<^verbatim>\<open>SetJob\<close>, \<^verbatim>\<open>SetTaskGroup\<close> and \<^verbatim>\<open>Reset\<close>
  the iterator enforces and the applicable limit stands at \<open>{CPU: 600}\<close>;
  for the footprint \<open>{CPU: 300}\<close>, \<^verbatim>\<open>Next\<close> returns the candidate of the upstream
  iterator and reports nothing; for the footprint \<open>{CPU: 500}\<close> it returns no candidate,
  reports the dimension CPU to the metrics and marks the quota as reached.
\<close>

theorem scenario_accept_then_reject:
  "Reset scenario_source [''h''] (configured ''default'' 300)
     = Inr (after_reset ''default'' 300 [''h''])
   \<and> Reset scenario_source [''h''] (configured ''default'' 500)
     = Inr (after_reset ''default'' 500 [''h''])
   \<and> enforcing (iter (after_reset ''default'' 300 [''h'']))
   \<and> enforcing (iter (after_reset ''default'' 500 [''h'']))
   \<and> applicable_limit (after_reset ''default'' 300 [''h'']) = Some (limit ''h'' 600)
   \<and> applicable_limit (after_reset ''default'' 500 [''h'']) = Some (limit ''h'' 600)
   \<and> returned (Next scenario_source (after_reset ''default'' 300 [''h'']))
     = Inr (Some \<lparr>Node_ID = ''n0''\<rparr>)
   \<and> effects (Next scenario_source (after_reset ''default'' 300 [''h''])) = Inr ([], [])
   \<and> returned (Next scenario_source (after_reset ''default'' 500 [''h''])) = Inr None
   \<and> effects (Next scenario_source (after_reset ''default'' 500 [''h'']))
       = Inr ([[DimCPU]], [''q''])"
  by (simp add: scenario_defs model_defs enforcing_def applicable_limit_def word_sle_eq)

subsection \<open>What SetJob leaves behind\<close>

text \<open>
  Claim C10. After \<^verbatim>\<open>SetJob\<close> on an iterator that no earlier \<^verbatim>\<open>SetJob\<close> has
  configured, a Build Error implies that \<^verbatim>\<open>quota\<close>, \<^verbatim>\<open>quotaLimits\<close> and
  \<^verbatim>\<open>actUsage\<close> are all nil, the three fields are set together or not at all, the test
  of \<^verbatim>\<open>buildErr\<close> in \<^verbatim>\<open>Next\<close> adds nothing to the test of \<^verbatim>\<open>quota\<close>, and the
  iterator enforces exactly when \<^verbatim>\<open>quota\<close> is set.
\<close>

theorem SetJob_all_or_nothing:
  assumes "buildErr (iter w) = None" and "quota (iter w) = None"
    and "quotaLimits (iter w) = None" and "actUsage (iter w) = None"
  shows "(buildErr (iter (SetJob j w)) \<noteq> None \<longrightarrow>
            quota (iter (SetJob j w)) = None \<and> quotaLimits (iter (SetJob j w)) = None
            \<and> actUsage (iter (SetJob j w)) = None)
         \<and> (quota (iter (SetJob j w)) \<noteq> None) = (quotaLimits (iter (SetJob j w)) \<noteq> None)
         \<and> (quota (iter (SetJob j w)) \<noteq> None) = (actUsage (iter (SetJob j w)) \<noteq> None)
         \<and> (quota (iter (SetJob j w)) = None \<or> buildErr (iter (SetJob j w)) \<noteq> None)
             = (quota (iter (SetJob j w)) = None)
         \<and> enforcing (iter (SetJob j w)) = (quota (iter (SetJob j w)) \<noteq> None)"
  using assms
  by (simp add: SetJob_def build_failed_def enforcing_def Let_def split: sum.split option.split)

theorem SetJob_all_or_nothing_witness:
  "buildErr (iter scenario_world) = None \<and> quota (iter scenario_world) = None
   \<and> quotaLimits (iter scenario_world) = None \<and> actUsage (iter scenario_world) = None
   \<and> enforcing (iter (SetJob (scenario_job ''default'') scenario_world))
   \<and> buildErr (iter (SetJob (scenario_job ''default'') scenario_world)) = None
   \<and> quotaLimits (iter (SetJob (scenario_job ''default'') scenario_world)) \<noteq> None
   \<and> actUsage (iter (SetJob (scenario_job ''default'') scenario_world)) \<noteq> None
   \<and> buildErr (iter (SetJob (scenario_job ''gone'') scenario_world)) \<noteq> None
   \<and> \<not> enforcing (iter (SetJob (scenario_job ''gone'') scenario_world))
   \<and> actUsage (iter (SetJob (scenario_job ''gone'') scenario_world)) = None"
proof -
  have h: "buildErr (iter scenario_world) = None" "quota (iter scenario_world) = None"
    "quotaLimits (iter scenario_world) = None" "actUsage (iter scenario_world) = None"
    by (simp_all add: scenario_defs NewQuotaIterator_def)
  have q: "quota (iter (SetJob (scenario_job ''default'') scenario_world)) \<noteq> None"
    and b: "buildErr (iter (SetJob (scenario_job ''gone'') scenario_world)) \<noteq> None"
    by (simp_all add: scenario_defs model_defs)
  show ?thesis
    using h q b
      SetJob_all_or_nothing [OF h, of "scenario_job ''default''"]
      SetJob_all_or_nothing [OF h, of "scenario_job ''gone''"]
    by auto
qed

subsection \<open>Nil dereferences in Next\<close>

text \<open>
  Claim C9. When a quota is set and no Build Error is recorded, and the upstream iterator
  yields a candidate, \<^verbatim>\<open>Next\<close> panics with a nil dereference if \<^verbatim>\<open>proposedLimit\<close> is
  still nil (no \<^verbatim>\<open>Reset\<close> has set it), and also if the map of limits has no entry for
  the hash of the proposed limit; it does not pass the candidate through.
\<close>

theorem Next_nil_dereference:
  assumes "fst (source_Next src (source w)) \<noteq> None"
    and "quota (iter w) \<noteq> None" and "buildErr (iter w) = None"
    and "case proposedLimit (iter w) of
           None \<Rightarrow> True
         | Some l \<Rightarrow>
             (case quotaLimits (iter w) of
                None \<Rightarrow> True
              | Some m \<Rightarrow> m (Hash (cells (store w) l)) = None)"
  shows "Next src w = Inl NilPointerDereference"
  using assms
  by (auto simp add: Next_def Let_def QuotaLimit_Copy_def alloc_def AddResource_def
      split: prod.split option.split option.split_asm)

theorem Next_nil_dereference_witness:
  "enforcing (iter (configured ''default'' 300))
   \<and> proposedLimit (iter (configured ''default'' 300)) = None
   \<and> Next scenario_source (configured ''default'' 300) = Inl NilPointerDereference
   \<and> enforcing (iter (after_reset ''stale'' 300 [''x'']))
   \<and> applicable_limit (after_reset ''stale'' 300 [''x'']) = Some (limit ''x'' 400)
   \<and> Next scenario_source (after_reset ''stale'' 300 [''x'']) = Inl NilPointerDereference"
proof -
  have a: "fst (source_Next scenario_source (source (configured ''default'' 300))) \<noteq> None"
    "quota (iter (configured ''default'' 300)) \<noteq> None"
    "buildErr (iter (configured ''default'' 300)) = None"
    "case proposedLimit (iter (configured ''default'' 300)) of
       None \<Rightarrow> True
     | Some l \<Rightarrow>
         (case quotaLimits (iter (configured ''default'' 300)) of
            None \<Rightarrow> True
          | Some m \<Rightarrow> m (Hash (cells (store (configured ''default'' 300)) l)) = None)"
    by (simp_all add: scenario_defs model_defs)
  have b: "fst (source_Next scenario_source (source (after_reset ''stale'' 300 [''x'']))) \<noteq> None"
    "quota (iter (after_reset ''stale'' 300 [''x''])) \<noteq> None"
    "buildErr (iter (after_reset ''stale'' 300 [''x''])) = None"
    "case proposedLimit (iter (after_reset ''stale'' 300 [''x''])) of
       None \<Rightarrow> True
     | Some l \<Rightarrow>
         (case quotaLimits (iter (after_reset ''stale'' 300 [''x''])) of
            None \<Rightarrow> True
          | Some m \<Rightarrow> m (Hash (cells (store (after_reset ''stale'' 300 [''x''])) l)) = None)"
    by (simp_all add: scenario_defs model_defs)
  have c: "enforcing (iter (configured ''default'' 300))"
    "proposedLimit (iter (configured ''default'' 300)) = None"
    "enforcing (iter (after_reset ''stale'' 300 [''x'']))"
    "applicable_limit (after_reset ''stale'' 300 [''x'']) = Some (limit ''x'' 400)"
    by (simp_all add: scenario_defs model_defs enforcing_def applicable_limit_def)
  show ?thesis
    using c Next_nil_dereference [OF a] Next_nil_dereference [OF b] by simp
qed

subsection \<open>Pass-through\<close>

lemma Next_without_quota:
  "quota (iter w) = None \<Longrightarrow>
   Next src w
     = Inr (fst (source_Next src (source w)), w\<lparr>source := snd (source_Next src (source w))\<rparr>)"
  by (simp add: Next_def Let_def split: prod.split option.split)

lemma Reset_without_quota:
  "quota (iter w) = None \<Longrightarrow>
   Reset src visit w = Inr (w\<lparr>source := source_Reset src (source w)\<rparr>)"
  by (simp add: Reset_def Let_def)

lemma run_without_quota:
  "quota (iter w) = None \<Longrightarrow>
   \<exists>w'. run src calls w = Inr (fst (run_source src calls (source w)), w')
        \<and> ctx w' = ctx w \<and> store w' = store w
        \<and> quota (iter w') = None \<and> buildErr (iter w') = buildErr (iter w)"
proof (induction calls arbitrary: w)
  case Nil
  then show ?case by simp
next
  case (Cons c calls)
  show ?case
  proof (cases c)
    case CallNext
    let ?w1 = "w\<lparr>source := snd (source_Next src (source w))\<rparr>"
    have "quota (iter ?w1) = None" using Cons.prems by simp
    from Cons.IH [OF this] obtain w' where
      "run src calls ?w1 = Inr (fst (run_source src calls (source ?w1)), w')"
      "ctx w' = ctx ?w1" "store w' = store ?w1"
      "quota (iter w') = None" "buildErr (iter w') = buildErr (iter ?w1)"
      by blast
    then show ?thesis
      using CallNext Cons.prems
      by (simp add: Next_without_quota split: prod.split)
  next
    case (CallReset visit)
    let ?w1 = "w\<lparr>source := source_Reset src (source w)\<rparr>"
    have "quota (iter ?w1) = None" using Cons.prems by simp
    from Cons.IH [OF this] show ?thesis
      using CallReset Cons.prems by (simp add: Reset_without_quota)
  next
    case (CallSetTaskGroup tg)
    have "quota (iter (SetTaskGroup tg w)) = None"
      using Cons.prems by (simp add: SetTaskGroup_def)
    from Cons.IH [OF this] show ?thesis
      using CallSetTaskGroup by (simp add: SetTaskGroup_def)
  qed
qed

lemma SetJob_frame:
  "source (SetJob j w) = source w" "store (SetJob j w) = store w"
  "Metrics (ctx (SetJob j w)) = Metrics (ctx w)"
  "Eligibility (ctx (SetJob j w)) = Eligibility (ctx w)"
  by (simp_all add: SetJob_def build_failed_def Logger_Error_def Let_def
      split: sum.split option.split)

lemma SetJob_failed:
  "resolution_fails (State (ctx w)) j \<Longrightarrow>
   \<exists>msg e. SetJob j w = build_failed msg e (w\<lparr>iter := (iter w)\<lparr>job := Some j\<rparr>\<rparr>)"
  by (auto simp add: resolution_fails_def lookup_failed_def SetJob_def Let_def
      split: sum.splits option.splits)

text \<open>
  Claim C2. When a lookup that \<^verbatim>\<open>SetJob\<close> makes for the job (namespace, quota
  specification, quota usage) returns an error or nothing, on an iterator that no earlier
  \<^verbatim>\<open>SetJob\<close> has armed: a Build Error is recorded, one entry is added to the error log,
  and in every run of calls that follows each \<^verbatim>\<open>Next\<close> returns the candidate of the
  upstream iterator, while the context stays as \<^verbatim>\<open>SetJob\<close> left it: no call of
  \<^verbatim>\<open>ExhaustQuota\<close> or \<^verbatim>\<open>SetQuotaLimitReached\<close>.
\<close>

theorem SetJob_failure_passes_through:
  assumes "resolution_fails (State (ctx w)) j" and "quota (iter w) = None"
  shows "\<exists>msg e w'.
           buildErr (iter (SetJob j w)) = Some e
           \<and> ctx (SetJob j w) = (ctx w)\<lparr>Logger := Logger (ctx w) @ [(msg, e)]\<rparr>
           \<and> run src calls (SetJob j w) = Inr (fst (run_source src calls (source w)), w')
           \<and> ctx w' = ctx (SetJob j w)"
proof -
  from SetJob_failed [OF assms(1)] obtain msg e where
    f: "SetJob j w = build_failed msg e (w\<lparr>iter := (iter w)\<lparr>job := Some j\<rparr>\<rparr>)"
    by blast
  have b: "buildErr (iter (SetJob j w)) = Some e"
    and l: "ctx (SetJob j w) = (ctx w)\<lparr>Logger := Logger (ctx w) @ [(msg, e)]\<rparr>"
    and q: "quota (iter (SetJob j w)) = None"
    using assms(2) by (simp_all add: f build_failed_def Logger_Error_def)
  from run_without_quota [OF q, of src calls] obtain w' where
    "run src calls (SetJob j w) = Inr (fst (run_source src calls (source w)), w')"
    "ctx w' = ctx (SetJob j w)"
    by (auto simp add: SetJob_frame)
  with b l show ?thesis by blast
qed

theorem SetJob_failure_passes_through_witness:
  "resolution_fails (State (ctx scenario_world)) (scenario_job ''gone'')
   \<and> resolution_fails (State (ctx scenario_world)) (scenario_job ''broken'')
   \<and> resolution_fails (State (ctx scenario_world)) (scenario_job ''orphan'')
   \<and> quota (iter scenario_world) = None
   \<and> Logger (ctx (SetJob (scenario_job ''gone'') scenario_world))
       = [(''scheduler.QuotaIterator '', UnknownNamespace ''gone'' ''job'')]
   \<and> Logger (ctx (SetJob (scenario_job ''broken'') scenario_world))
       = [(''scheduler.QuotaIterator'', NamespaceLookupFailed ''job'' ''broken'' ''timeout'')]
   \<and> Logger (ctx (SetJob (scenario_job ''orphan'') scenario_world))
       = [(''scheduler.QuotaIterator'', UnknownQuotaUsage ''q4'')]
   \<and> (\<exists>w'. buildErr (iter (SetJob (scenario_job ''gone'') scenario_world)) \<noteq> None
         \<and> run scenario_source
              [CallSetTaskGroup (scenario_tg 5000), CallReset [], CallNext, CallNext,
               CallReset [], CallNext]
              (SetJob (scenario_job ''gone'') scenario_world)
             = Inr ([Some \<lparr>Node_ID = ''n0''\<rparr>, Some \<lparr>Node_ID = ''n1''\<rparr>,
                     Some \<lparr>Node_ID = ''n0''\<rparr>], w')
         \<and> Metrics (ctx w') = [] \<and> Eligibility (ctx w') = [])
   \<and> (\<exists>w'. buildErr (iter (SetJob (scenario_job ''broken'') scenario_world)) \<noteq> None
         \<and> run scenario_source
              [CallSetTaskGroup (scenario_tg 5000), CallReset [], CallNext, CallNext,
               CallReset [], CallNext]
              (SetJob (scenario_job ''broken'') scenario_world)
             = Inr ([Some \<lparr>Node_ID = ''n0''\<rparr>, Some \<lparr>Node_ID = ''n1''\<rparr>,
                     Some \<lparr>Node_ID = ''n0''\<rparr>], w')
         \<and> Metrics (ctx w') = [] \<and> Eligibility (ctx w') = [])
   \<and> (\<exists>w'. buildErr (iter (SetJob (scenario_job ''orphan'') scenario_world)) \<noteq> None
         \<and> run scenario_source
              [CallSetTaskGroup (scenario_tg 5000), CallReset [], CallNext, CallNext,
               CallReset [], CallNext]
              (SetJob (scenario_job ''orphan'') scenario_world)
             = Inr ([Some \<lparr>Node_ID = ''n0''\<rparr>, Some \<lparr>Node_ID = ''n1''\<rparr>,
                     Some \<lparr>Node_ID = ''n0''\<rparr>], w')
         \<and> Metrics (ctx w') = [] \<and> Eligibility (ctx w') = [])"
proof -
  let ?calls = "[CallSetTaskGroup (scenario_tg 5000), CallReset [], CallNext, CallNext,
                 CallReset [], CallNext]"
  have h1: "resolution_fails (State (ctx scenario_world)) (scenario_job ''gone'')"
    "resolution_fails (State (ctx scenario_world)) (scenario_job ''broken'')"
    "resolution_fails (State (ctx scenario_world)) (scenario_job ''orphan'')"
    by (simp_all add: resolution_fails_def lookup_failed_def scenario_defs)
  have h2: "quota (iter scenario_world) = None"
    by (simp add: scenario_defs NewQuotaIterator_def)
  have logs: "Logger (ctx (SetJob (scenario_job ''gone'') scenario_world))
       = [(''scheduler.QuotaIterator '', UnknownNamespace ''gone'' ''job'')]"
    "Logger (ctx (SetJob (scenario_job ''broken'') scenario_world))
       = [(''scheduler.QuotaIterator'', NamespaceLookupFailed ''job'' ''broken'' ''timeout'')]"
    "Logger (ctx (SetJob (scenario_job ''orphan'') scenario_world))
       = [(''scheduler.QuotaIterator'', UnknownQuotaUsage ''q4'')]"
    by (simp_all add: scenario_defs SetJob_def build_failed_def Logger_Error_def)
  have out: "fst (run_source scenario_source ?calls (source scenario_world))
       = [Some \<lparr>Node_ID = ''n0''\<rparr>, Some \<lparr>Node_ID = ''n1''\<rparr>, Some \<lparr>Node_ID = ''n0''\<rparr>]"
    by (simp add: scenario_defs)
  have quiet: "Metrics (ctx scenario_world) = []" "Eligibility (ctx scenario_world) = []"
    by (simp_all add: scenario_defs)
  have each: "\<exists>w'. buildErr (iter (SetJob (scenario_job n) scenario_world)) \<noteq> None
           \<and> run scenario_source ?calls (SetJob (scenario_job n) scenario_world)
               = Inr ([Some \<lparr>Node_ID = ''n0''\<rparr>, Some \<lparr>Node_ID = ''n1''\<rparr>,
                       Some \<lparr>Node_ID = ''n0''\<rparr>], w')
           \<and> Metrics (ctx w') = [] \<and> Eligibility (ctx w') = []"
    if "resolution_fails (State (ctx scenario_world)) (scenario_job n)" for n
  proof -
    from SetJob_failure_passes_through [OF that h2, of scenario_source ?calls]
    obtain msg e w' where
      "buildErr (iter (SetJob (scenario_job n) scenario_world)) = Some e"
      "ctx (SetJob (scenario_job n) scenario_world)
         = (ctx scenario_world)\<lparr>Logger := Logger (ctx scenario_world) @ [(msg, e)]\<rparr>"
      "run scenario_source ?calls (SetJob (scenario_job n) scenario_world)
         = Inr (fst (run_source scenario_source ?calls (source scenario_world)), w')"
      "ctx w' = ctx (SetJob (scenario_job n) scenario_world)"
      by blast
    then show ?thesis using out quiet by auto
  qed
  show ?thesis
    using h1 h2 logs each [OF h1(1)] each [OF h1(2)] each [OF h1(3)] by simp
qed

text \<open>
  Claim C4. For a job whose namespace exists and names no quota, on an iterator that no
  earlier \<^verbatim>\<open>SetJob\<close> has armed: \<^verbatim>\<open>SetJob\<close> only stores the job, and in every run of
  \<^verbatim>\<open>Next\<close>, \<^verbatim>\<open>Reset\<close> and \<^verbatim>\<open>SetTaskGroup\<close> calls each \<^verbatim>\<open>Next\<close> returns what the
  upstream iterator returns; no Build Error is recorded and the context (log, metrics,
  eligibility) is untouched.
\<close>

theorem no_quota_reference_passes_through:
  assumes "NamespaceByName (State (ctx w)) (Job_Namespace j) = Inr (Some namespace)"
    and "Namespace_Quota namespace = []" and "quota (iter w) = None"
  shows "SetJob j w = w\<lparr>iter := (iter w)\<lparr>job := Some j\<rparr>\<rparr>
         \<and> (\<exists>w'. run src calls (SetJob j w) = Inr (fst (run_source src calls (source w)), w')
                \<and> ctx w' = ctx w \<and> buildErr (iter w') = buildErr (iter w))"
proof -
  have s: "SetJob j w = w\<lparr>iter := (iter w)\<lparr>job := Some j\<rparr>\<rparr>"
    using assms by (simp add: SetJob_def Let_def)
  then have "quota (iter (SetJob j w)) = None" using assms by simp
  from run_without_quota [OF this, of src calls] show ?thesis
    using s by auto
qed

theorem no_quota_reference_passes_through_witness:
  "NamespaceByName (State (ctx scenario_world)) (Job_Namespace (scenario_job ''open''))
     = Inr (Some \<lparr>Namespace_Name = ''open'', Namespace_Quota = []\<rparr>)
   \<and> quota (iter scenario_world) = None
   \<and> (\<exists>w'. run scenario_source
              [CallSetTaskGroup (scenario_tg 5000), CallReset [], CallNext, CallNext,
               CallNext, CallNext, CallReset [], CallNext]
              (SetJob (scenario_job ''open'') scenario_world)
             = Inr ([Some \<lparr>Node_ID = ''n0''\<rparr>, Some \<lparr>Node_ID = ''n1''\<rparr>,
                     Some \<lparr>Node_ID = ''n2''\<rparr>, None, Some \<lparr>Node_ID = ''n0''\<rparr>], w')
         \<and> ctx w' = ctx scenario_world \<and> buildErr (iter w') = None)"
proof -
  have h1: "NamespaceByName (State (ctx scenario_world)) (Job_Namespace (scenario_job ''open''))
              = Inr (Some \<lparr>Namespace_Name = ''open'', Namespace_Quota = []\<rparr>)"
    by (simp add: scenario_defs)
  have h2: "Namespace_Quota \<lparr>Namespace_Name = ''open'', Namespace_Quota = []\<rparr> = []"
    by simp
  have h3: "quota (iter scenario_world) = None"
    by (simp add: scenario_defs NewQuotaIterator_def)
  from no_quota_reference_passes_through [OF h1 h2 h3, of scenario_source
      "[CallSetTaskGroup (scenario_tg 5000), CallReset [], CallNext, CallNext,
        CallNext, CallNext, CallReset [], CallNext]"]
  obtain w' where
    "run scenario_source
       [CallSetTaskGroup (scenario_tg 5000), CallReset [], CallNext, CallNext,
        CallNext, CallNext, CallReset [], CallNext]
       (SetJob (scenario_job ''open'') scenario_world)
     = Inr (fst (run_source scenario_source
       [CallSetTaskGroup (scenario_tg 5000), CallReset [], CallNext, CallNext,
        CallNext, CallNext, CallReset [], CallNext]
       (source scenario_world)), w')"
    "ctx w' = ctx scenario_world" "buildErr (iter w') = buildErr (iter scenario_world)"
    by blast
  moreover have "fst (run_source scenario_source
       [CallSetTaskGroup (scenario_tg 5000), CallReset [], CallNext, CallNext,
        CallNext, CallNext, CallReset [], CallNext]
       (source scenario_world))
     = [Some \<lparr>Node_ID = ''n0''\<rparr>, Some \<lparr>Node_ID = ''n1''\<rparr>,
        Some \<lparr>Node_ID = ''n2''\<rparr>, None, Some \<lparr>Node_ID = ''n0''\<rparr>]"
    by (simp add: scenario_defs)
  moreover have "buildErr (iter scenario_world) = None"
    by (simp add: scenario_defs NewQuotaIterator_def)
  ultimately show ?thesis
    using h1 h3 by auto
qed

text \<open>
  Claim C7. When the namespace, the quota specification and the quota usage are all found
  but the usage record holds no limit, on an iterator that no earlier \<^verbatim>\<open>SetJob\<close> has
  armed: \<^verbatim>\<open>SetJob\<close> only stores the job (no Build Error, no log entry), and in every run
  of calls, whatever task groups are set, each \<^verbatim>\<open>Next\<close> returns what the upstream
  iterator returns.
\<close>

theorem empty_usage_passes_through:
  assumes "NamespaceByName (State (ctx w)) (Job_Namespace j) = Inr (Some namespace)"
    and "Namespace_Quota namespace \<noteq> []"
    and "QuotaSpecByName (State (ctx w)) (Namespace_Quota namespace) = Inr (Some q)"
    and "QuotaUsageByName (State (ctx w)) (Namespace_Quota namespace) = Inr (Some usage)"
    and "Used usage = []" and "quota (iter w) = None"
  shows "SetJob j w = w\<lparr>iter := (iter w)\<lparr>job := Some j\<rparr>\<rparr>
         \<and> (\<exists>w'. run src calls (SetJob j w) = Inr (fst (run_source src calls (source w)), w')
                \<and> ctx w' = ctx w \<and> buildErr (iter w') = buildErr (iter w))"
proof -
  have s: "SetJob j w = w\<lparr>iter := (iter w)\<lparr>job := Some j\<rparr>\<rparr>"
    using assms by (simp add: SetJob_def Let_def)
  then have "quota (iter (SetJob j w)) = None" using assms by simp
  from run_without_quota [OF this, of src calls] show ?thesis
    using s by auto
qed

theorem empty_usage_passes_through_witness:
  "NamespaceByName (State (ctx scenario_world)) (Job_Namespace (scenario_job ''idle''))
     = Inr (Some \<lparr>Namespace_Name = ''idle'', Namespace_Quota = ''q0''\<rparr>)
   \<and> QuotaSpecByName (State (ctx scenario_world)) ''q0''
     = Inr (Some \<lparr>QuotaSpec_Name = ''q0'', Limits = [limit ''h'' 1000]\<rparr>)
   \<and> QuotaUsageByName (State (ctx scenario_world)) ''q0''
     = Inr (Some \<lparr>QuotaUsage_Name = ''q0'', Used = []\<rparr>)
   \<and> quota (iter scenario_world) = None
   \<and> (\<exists>w'. run scenario_source
              [CallSetTaskGroup (scenario_tg 5000), CallReset [], CallNext,
               CallSetTaskGroup (scenario_tg 1), CallNext, CallReset [], CallNext]
              (SetJob (scenario_job ''idle'') scenario_world)
             = Inr ([Some \<lparr>Node_ID = ''n0''\<rparr>, Some \<lparr>Node_ID = ''n1''\<rparr>,
                     Some \<lparr>Node_ID = ''n0''\<rparr>], w')
         \<and> ctx w' = ctx scenario_world \<and> buildErr (iter w') = None)"
proof -
  have h1: "NamespaceByName (State (ctx scenario_world)) (Job_Namespace (scenario_job ''idle''))
              = Inr (Some \<lparr>Namespace_Name = ''idle'', Namespace_Quota = ''q0''\<rparr>)"
    by (simp add: scenario_defs)
  have h2: "Namespace_Quota \<lparr>Namespace_Name = ''idle'', Namespace_Quota = ''q0''\<rparr> \<noteq> []"
    by simp
  have h3: "QuotaSpecByName (State (ctx scenario_world))
              (Namespace_Quota \<lparr>Namespace_Name = ''idle'', Namespace_Quota = ''q0''\<rparr>)
            = Inr (Some \<lparr>QuotaSpec_Name = ''q0'', Limits = [limit ''h'' 1000]\<rparr>)"
    by (simp add: scenario_defs)
  have h4: "QuotaUsageByName (State (ctx scenario_world))
              (Namespace_Quota \<lparr>Namespace_Name = ''idle'', Namespace_Quota = ''q0''\<rparr>)
            = Inr (Some \<lparr>QuotaUsage_Name = ''q0'', Used = []\<rparr>)"
    by (simp add: scenario_defs)
  have h5: "Used \<lparr>QuotaUsage_Name = ''q0'', Used = []\<rparr> = []"
    by simp
  have h6: "quota (iter scenario_world) = None"
    by (simp add: scenario_defs NewQuotaIterator_def)
  from empty_usage_passes_through [OF h1 h2 h3 h4 h5 h6, of scenario_source
      "[CallSetTaskGroup (scenario_tg 5000), CallReset [], CallNext,
        CallSetTaskGroup (scenario_tg 1), CallNext, CallReset [], CallNext]"]
  obtain w' where
    "run scenario_source
       [CallSetTaskGroup (scenario_tg 5000), CallReset [], CallNext,
        CallSetTaskGroup (scenario_tg 1), CallNext, CallReset [], CallNext]
       (SetJob (scenario_job ''idle'') scenario_world)
     = Inr (fst (run_source scenario_source
       [CallSetTaskGroup (scenario_tg 5000), CallReset [], CallNext,
        CallSetTaskGroup (scenario_tg 1), CallNext, CallReset [], CallNext]
       (source scenario_world)), w')"
    "ctx w' = ctx scenario_world" "buildErr (iter w') = buildErr (iter scenario_world)"
    by blast
  moreover have "fst (run_source scenario_source
       [CallSetTaskGroup (scenario_tg 5000), CallReset [], CallNext,
        CallSetTaskGroup (scenario_tg 1), CallNext, CallReset [], CallNext]
       (source scenario_world))
     = [Some \<lparr>Node_ID = ''n0''\<rparr>, Some \<lparr>Node_ID = ''n1''\<rparr>,
        Some \<lparr>Node_ID = ''n0''\<rparr>]"
    by (simp add: scenario_defs)
  moreover have "buildErr (iter scenario_world) = None"
    by (simp add: scenario_defs NewQuotaIterator_def)
  moreover have "QuotaSpecByName (State (ctx scenario_world)) ''q0''
       = Inr (Some \<lparr>QuotaSpec_Name = ''q0'', Limits = [limit ''h'' 1000]\<rparr>)"
    "QuotaUsageByName (State (ctx scenario_world)) ''q0''
       = Inr (Some \<lparr>QuotaUsage_Name = ''q0'', Used = []\<rparr>)"
    using h3 h4 by simp_all
  ultimately show ?thesis
    using h1 h6 by auto
qed

subsection \<open>The store under Copy and UpdateUsageFromPlan\<close>

lemma copy_used_step:
  "fst (copy_used h ((k, l) # used))
     = (k, free h) # fst (copy_used (snd (alloc h (cells h l))) used)"
  "snd (copy_used h ((k, l) # used)) = snd (copy_used (snd (alloc h (cells h l))) used)"
  by (simp_all add: QuotaLimit_Copy_def alloc_def case_prod_beta Let_def)

lemma alloc_facts:
  "free (snd (alloc h v)) = Suc (free h)"
  "cells (snd (alloc h v)) (free h) = v"
  "a < free h \<Longrightarrow> cells (snd (alloc h v)) a = cells h a"
  by (simp_all add: alloc_def)

lemma copy_used_free: "free (snd (copy_used h used)) = free h + length used"
proof (induction used arbitrary: h)
  case Nil
  then show ?case by simp
next
  case (Cons x used)
  obtain k l where x: "x = (k, l)" by (cases x)
  show ?case
    unfolding x copy_used_step using Cons.IH by (simp add: alloc_facts)
qed

lemma copy_used_fst:
  "fst (copy_used h used) = zip (map fst used) [free h..<free h + length used]"
proof (induction used arbitrary: h)
  case Nil
  then show ?case by simp
next
  case (Cons x used)
  obtain k l where x: "x = (k, l)" by (cases x)
  have "[free h..<free h + length (x # used)]
          = free h # [Suc (free h)..<Suc (free h) + length used]"
    by (simp add: upt_rec)
  then show ?case
    unfolding x copy_used_step using Cons.IH by (simp add: alloc_facts)
qed

lemma copy_used_frame:
  "a < free h \<Longrightarrow> cells (snd (copy_used h used)) a = cells h a"
proof (induction used arbitrary: h)
  case Nil
  then show ?case by simp
next
  case (Cons x used)
  obtain k l where x: "x = (k, l)" by (cases x)
  have "a < free (snd (alloc h (cells h l)))"
    using Cons.prems by (simp add: alloc_facts)
  from Cons.IH [OF this] show ?case
    unfolding x copy_used_step using Cons.prems by (simp add: alloc_facts)
qed

lemma copy_used_contents:
  "list_all (\<lambda>(k, l). l < free h) used \<Longrightarrow>
   map (\<lambda>(k, l). cells (snd (copy_used h used)) l) (fst (copy_used h used))
     = map (\<lambda>(k, l). cells h l) used"
proof (induction used arbitrary: h)
  case Nil
  then show ?case by simp
next
  case (Cons x used)
  obtain k l where x: "x = (k, l)" by (cases x)
  let ?h1 = "snd (alloc h (cells h l))"
  have v: "list_all (\<lambda>(k, l). l < free ?h1) used"
    using Cons.prems by (auto simp add: list_all_iff alloc_facts)
  have same: "map (\<lambda>(k, l). cells ?h1 l) used = map (\<lambda>(k, l). cells h l) used"
    using Cons.prems by (auto simp add: list_all_iff alloc_facts)
  have head: "cells (snd (copy_used ?h1 used)) (free h) = cells h l"
    using copy_used_frame [of "free h" ?h1 used] by (simp add: alloc_facts)
  show ?case
    unfolding x copy_used_step using Cons.IH [OF v] same head by simp
qed


lemma AddResource_facts:
  "free (AddResource h l r) = free h"
  "a \<noteq> l \<Longrightarrow> cells (AddResource h l r) a = cells h a"
  "cells (AddResource h l r) l = (cells h l)\<lparr>RegionLimit := Resources_Add (RegionLimit (cells h l)) r\<rparr>"
  by (simp_all add: AddResource_def)

lemma update_free: "free (UpdateUsageFromPlan h u plan) = free h"
  by (induction plan arbitrary: h) (simp_all add: AddResource_facts split: option.split)

lemma update_frame:
  "a \<notin> snd ` set (Used u) \<Longrightarrow> cells (UpdateUsageFromPlan h u plan) a = cells h a"
proof (induction plan arbitrary: h)
  case Nil
  then show ?case by simp
next
  case (Cons p plan)
  show ?case
  proof (cases "map_of (Used u) (Alloc_Hash p)")
    case None
    then show ?thesis using Cons by simp
  next
    case (Some l)
    then have "l \<in> snd ` set (Used u)"
      by (force dest: map_of_SomeD)
    then have "a \<noteq> l" using Cons.prems by auto
    then show ?thesis
      using Some Cons by (simp add: AddResource_facts)
  qed
qed

lemma update_shift:
  assumes "Used u2 = map (\<lambda>(k, l). (k, l + d)) (Used u1)"
    and "\<forall>l\<in>snd ` set (Used u1). cells h2 (l + d) = cells h1 l"
  shows "\<forall>l\<in>snd ` set (Used u1).
           cells (UpdateUsageFromPlan h2 u2 plan) (l + d) = cells (UpdateUsageFromPlan h1 u1 plan) l"
  using assms(2)
proof (induction plan arbitrary: h1 h2)
  case Nil
  then show ?case by simp
next
  case (Cons p plan)
  have m: "map_of (Used u2) (Alloc_Hash p) = map_option (\<lambda>l. l + d) (map_of (Used u1) (Alloc_Hash p))"
    by (simp add: assms(1) map_of_map)
  show ?case
  proof (cases "map_of (Used u1) (Alloc_Hash p)")
    case None
    then show ?thesis using m Cons by simp
  next
    case (Some l0)
    then have in1: "l0 \<in> snd ` set (Used u1)"
      by (force dest: map_of_SomeD)
    let ?r = "Alloc_Resources p"
    have "\<forall>l\<in>snd ` set (Used u1).
            cells (AddResource h2 (l0 + d) ?r) (l + d) = cells (AddResource h1 l0 ?r) l"
      using Cons.prems in1 by (auto simp add: AddResource_def)
    from Cons.IH [OF this] show ?thesis
      using m Some by simp
  qed
qed

lemma find_snoc:
  "find P (xs @ [x]) = (case find P xs of None \<Rightarrow> (if P x then Some x else None) | Some y \<Rightarrow> Some y)"
  by (induction xs) simp_all

lemma range_assign_find:
  "range_assign visit used p =
     (case find (\<lambda>k. map_of used k \<noteq> None) (rev visit) of
        None \<Rightarrow> p
      | Some k \<Rightarrow> map_of used k)"
proof (induction visit arbitrary: p)
  case Nil
  then show ?case by simp
next
  case (Cons k visit)
  show ?case
    by (cases "map_of used k") (auto simp add: Cons find_snoc split: option.split)
qed

lemma Reset_with_quota:
  assumes "quota (iter w) \<noteq> None" and "actUsage (iter w) = Some u"
  shows "Reset src visit w =
     Inr (w\<lparr>source := source_Reset src (source w),
            store := UpdateUsageFromPlan (snd (copy_used (store w) (Used u)))
                       (u\<lparr>Used := fst (copy_used (store w) (Used u))\<rparr>) (Plan (ctx w)),
            iter := (iter w)\<lparr>proposedUsage := Some (u\<lparr>Used := fst (copy_used (store w) (Used u))\<rparr>),
                             proposedLimit := range_assign visit (fst (copy_used (store w) (Used u)))
                                                (proposedLimit (iter w))\<rparr>\<rparr>)"
  using assms by (auto simp add: Reset_def Let_def QuotaUsage_Copy_def case_prod_beta)

lemma Next_returned:
  "returned (Next src w)
     = limit_check (iter w) (applicable_limit w) (fst (source_Next src (source w)))"
  by (simp add: Next_def returned_def limit_check_def applicable_limit_def Let_def
      QuotaLimit_Copy_def alloc_def AddResource_def Superset_def case_prod_beta
      split: option.split)

lemma Next_store:
  assumes "Next src w = Inr (option, w')"
  shows "iter w' = iter w" and "free (store w) \<le> free (store w')"
    and "\<And>a. a < free (store w) \<Longrightarrow> cells (store w') a = cells (store w) a"
    and "State (ctx w') = State (ctx w)" and "Plan (ctx w') = Plan (ctx w)"
    and "Logger (ctx w') = Logger (ctx w)"
  using assms
  by (auto simp add: Next_def Let_def QuotaLimit_Copy_def alloc_def AddResource_def
      Superset_def case_prod_beta ExhaustQuota_def SetQuotaLimitReached_def
      split: option.split_asm if_split_asm)


lemma zip_upt_shift:
  "zip ks [a + d..<a + d + length ks] = map (\<lambda>(k, l). (k, l + d)) (zip ks [a..<a + length ks])"
proof (induction ks arbitrary: a)
  case Nil
  then show ?case by simp
next
  case (Cons k ks)
  have "[a + d..<a + d + length (k # ks)] = (a + d) # [Suc a + d..<Suc a + d + length ks]"
    and "[a..<a + length (k # ks)] = a # [Suc a..<Suc a + length ks]"
    by (simp_all add: upt_rec)
  then show ?case using Cons [of "Suc a"] by simp
qed

lemma find_single: "k0 \<in> set xs \<Longrightarrow> find (\<lambda>k. k = k0) xs = Some k0"
  by (induction xs) auto

lemma limit_check_cong:
  "quota it' = quota it \<Longrightarrow> buildErr it' = buildErr it \<Longrightarrow> quotaLimits it' = quotaLimits it \<Longrightarrow>
   iter_combinedResources it' = iter_combinedResources it \<Longrightarrow>
   limit_check it' a option = limit_check it a option"
  by (auto simp add: limit_check_def split: option.split)

subsection \<open>Well-formedness is preserved\<close>

text \<open>
  The world of the scenarios is well-formed, and every operation of the iterator that
  returns leaves a well-formed world well-formed (for \<^verbatim>\<open>SetJob\<close>, provided the usage
  records of the state store point to allocated objects).
\<close>

lemma Next_valid:
  assumes "valid w" and "Next src w = Inr (option, w')"
  shows "valid w'"
proof -
  note st = Next_store [OF assms(2)]
  show ?thesis
    using assms(1) st(1) st(2)
    by (auto simp add: valid_def usage_valid_def list_all_iff split: option.splits)
qed

lemma SetTaskGroup_valid: "valid (SetTaskGroup tg w) = valid w"
  by (simp add: SetTaskGroup_def valid_def split: option.split)

lemma SetJob_valid:
  assumes "valid w"
    and "\<And>n u. QuotaUsageByName (State (ctx w)) n = Inr (Some u) \<Longrightarrow> usage_valid (store w) (Some u)"
  shows "valid (SetJob j w)"
  using assms
  by (auto simp add: SetJob_def build_failed_def valid_def Let_def split: sum.split option.splits)

lemma Reset_nil_usage:
  "quota (iter w) \<noteq> None \<Longrightarrow> actUsage (iter w) = None \<Longrightarrow>
   Reset src visit w = Inl NilPointerDereference"
  by (auto simp add: Reset_def Let_def)

lemma Reset_valid:
  assumes v: "valid w" and r: "Reset src visit w = Inr w'"
  shows "valid w'"
proof (cases "quota (iter w) = None")
  case True
  then show ?thesis
    using v r by (auto simp add: Reset_without_quota valid_def split: option.splits)
next
  case False
  then obtain u where au: "actUsage (iter w) = Some u"
    using r Reset_nil_usage [of w src visit] by (cases "actUsage (iter w)") simp_all
  define U where "U = fst (copy_used (store w) (Used u))"
  define n where "n = length (Used u)"
  define f where "f = free (store w)"
  have U: "U = zip (map fst (Used u)) [f..<f + n]"
    by (simp add: U_def copy_used_fst f_def n_def)
  have fresh: "\<And>k l. (k, l) \<in> set U \<Longrightarrow> l < f + n"
    unfolding U by (auto dest: set_zip_rightD)
  have w': "w' = w\<lparr>source := source_Reset src (source w),
            store := UpdateUsageFromPlan (snd (copy_used (store w) (Used u)))
                       (u\<lparr>Used := U\<rparr>) (Plan (ctx w)),
            iter := (iter w)\<lparr>proposedUsage := Some (u\<lparr>Used := U\<rparr>),
                             proposedLimit := range_assign visit U (proposedLimit (iter w))\<rparr>\<rparr>"
    using Reset_with_quota [OF False au, of src visit] r by (simp add: U_def)
  have fr: "free (store w') = f + n"
    by (simp add: w' update_free copy_used_free f_def n_def)
  have "actUsage (iter w') = Some u" using au by (simp add: w')
  moreover have "list_all (\<lambda>(k, l). l < f + n) (Used u)"
    using v au by (fastforce simp add: valid_def usage_valid_def list_all_iff f_def)
  ultimately have a: "usage_valid (store w') (actUsage (iter w'))"
    by (simp add: usage_valid_def fr)
  have "proposedUsage (iter w') = Some (u\<lparr>Used := U\<rparr>)" by (simp add: w')
  moreover have "list_all (\<lambda>(k, l). l < f + n) U"
    using fresh by (auto simp add: list_all_iff)
  ultimately have p: "usage_valid (store w') (proposedUsage (iter w'))"
    by (simp add: usage_valid_def fr)
  have "case range_assign visit U (proposedLimit (iter w)) of None \<Rightarrow> True | Some l \<Rightarrow> l < f + n"
  proof (cases "find (\<lambda>k. map_of U k \<noteq> None) (rev visit)")
    case None
    then show ?thesis
      using v by (auto simp add: range_assign_find valid_def f_def split: option.splits)
  next
    case (Some k)
    then show ?thesis
      using fresh by (auto simp add: range_assign_find dest: map_of_SomeD split: option.splits)
  qed
  then have l: "case proposedLimit (iter w') of None \<Rightarrow> True | Some l \<Rightarrow> l < free (store w')"
    unfolding fr by (simp add: w')
  show ?thesis using a p l by (simp add: valid_def)
qed

lemma scenario_world_valid: "valid scenario_world"
  by (simp add: valid_def usage_valid_def scenario_defs NewQuotaIterator_def)

subsection \<open>Next leaves the iterator and the allocated objects alone\<close>

text \<open>
  Claim C5. A call of \<^verbatim>\<open>Next\<close> that returns, whether it accepts or rejects, leaves
  every field of the iterator as it was (so \<^verbatim>\<open>proposedLimit\<close>, \<^verbatim>\<open>proposedUsage\<close>,
  \<^verbatim>\<open>actUsage\<close> and \<^verbatim>\<open>combinedResources\<close>) and leaves every object allocated
  before the call as it was: the applicable limit, the proposed usage and the actual usage
  have the contents they had, and so has the plan; the world stays well-formed. A later
  \<^verbatim>\<open>Next\<close> therefore returns, for any state \<open>s\<close> of the upstream iterator, what it
  would have returned before.
\<close>

theorem Next_frame:
  assumes v: "valid w" and n: "Next src w = Inr (option, w')"
  shows "iter w' = iter w
         \<and> (\<forall>a<free (store w). cells (store w') a = cells (store w) a)
         \<and> applicable_limit w' = applicable_limit w
         \<and> usage_contents (store w') (proposedUsage (iter w'))
             = usage_contents (store w) (proposedUsage (iter w))
         \<and> usage_contents (store w') (actUsage (iter w'))
             = usage_contents (store w) (actUsage (iter w))
         \<and> Plan (ctx w') = Plan (ctx w)
         \<and> valid w'
         \<and> returned (Next src (w'\<lparr>source := s\<rparr>)) = returned (Next src (w\<lparr>source := s\<rparr>))"
proof -
  note st = Next_store [OF n]
  note v' = Next_valid [OF v n]
  have lim: "applicable_limit w' = applicable_limit w"
    using v st(1) st(3) by (auto simp add: applicable_limit_def valid_def split: option.splits)
  have pu: "usage_contents (store w') (proposedUsage (iter w'))
              = usage_contents (store w) (proposedUsage (iter w))"
    using v st(1) st(3)
    by (auto simp add: usage_contents_def valid_def usage_valid_def list_all_iff
        split: option.splits)
  have au: "usage_contents (store w') (actUsage (iter w'))
              = usage_contents (store w) (actUsage (iter w))"
    using v st(1) st(3)
    by (auto simp add: usage_contents_def valid_def usage_valid_def list_all_iff
        split: option.splits)
  have "applicable_limit (w'\<lparr>source := s\<rparr>) = applicable_limit (w\<lparr>source := s\<rparr>)"
    using lim by (simp add: applicable_limit_def)
  then have "returned (Next src (w'\<lparr>source := s\<rparr>)) = returned (Next src (w\<lparr>source := s\<rparr>))"
    by (simp add: Next_returned st(1))
  then show ?thesis
    using st lim pu au v' by simp
qed

theorem Next_frame_witness:
  "valid (after_reset ''default'' 500 [''h''])
   \<and> Next scenario_source (after_reset ''default'' 500 [''h''])
       = Inr (None, snd (projr (Next scenario_source (after_reset ''default'' 500 [''h'']))))
   \<and> iter (snd (projr (Next scenario_source (after_reset ''default'' 500 [''h'']))))
       = iter (after_reset ''default'' 500 [''h''])
   \<and> applicable_limit (snd (projr (Next scenario_source (after_reset ''default'' 500 [''h'']))))
       = Some (limit ''h'' 600)
   \<and> returned (Next scenario_source
        ((snd (projr (Next scenario_source (after_reset ''default'' 500 [''h'']))))\<lparr>source := 1\<rparr>))
       = Inr None"
proof -
  have h1: "valid (after_reset ''default'' 500 [''h''])"
    by (simp add: scenario_defs model_defs valid_def usage_valid_def)
  have h2: "Next scenario_source (after_reset ''default'' 500 [''h''])
       = Inr (None, snd (projr (Next scenario_source (after_reset ''default'' 500 [''h'']))))"
    by (simp add: scenario_defs model_defs word_sle_eq)
  have a: "applicable_limit (after_reset ''default'' 500 [''h'']) = Some (limit ''h'' 600)"
    by (simp add: scenario_defs model_defs applicable_limit_def)
  have r: "returned (Next scenario_source ((after_reset ''default'' 500 [''h''])\<lparr>source := 1\<rparr>))
             = Inr None"
    by (simp add: scenario_defs model_defs word_sle_eq)
  from Next_frame [OF h1 h2, of 1] show ?thesis
    using h1 h2 a r by simp
qed

subsection \<open>Reset and the number of limits\<close>

text \<open>
  With more than one limit in the projected usage, \<^verbatim>\<open>Reset\<close> neither logs nor
  disables enforcement. For the namespace
  \<open>wide\<close>, whose usage holds the limits \<open>a\<close> and \<open>b\<close>, \<^verbatim>\<open>Reset\<close> returns, the
  proposed usage holds two limits, nothing is logged, the iterator still enforces, the
  applicable limit is the one visited last, and \<^verbatim>\<open>Next\<close> rejects against it.
\<close>

theorem Reset_keeps_enforcing_with_two_limits:
  "enforcing (iter (configured ''wide'' 300))
   \<and> \<not> isl (Reset scenario_source [''a'', ''b''] (configured ''wide'' 300))
   \<and> usage_contents (store (after_reset ''wide'' 300 [''a'', ''b'']))
        (proposedUsage (iter (after_reset ''wide'' 300 [''a'', ''b''])))
       = Some (''q2'', [(''a'', limit ''a'' 400), (''b'', limit ''b'' 900)])
   \<and> Logger (ctx (after_reset ''wide'' 300 [''a'', ''b''])) = []
   \<and> enforcing (iter (after_reset ''wide'' 300 [''a'', ''b'']))
   \<and> applicable_limit (after_reset ''wide'' 300 [''a'', ''b'']) = Some (limit ''b'' 900)
   \<and> returned (Next scenario_source (after_reset ''wide'' 300 [''a'', ''b''])) = Inr None
   \<and> effects (Next scenario_source (after_reset ''wide'' 300 [''a'', ''b'']))
       = Inr ([[DimCPU]], [''q2''])"
  by (simp add: scenario_defs model_defs enforcing_def usage_contents_def applicable_limit_def
      word_sle_eq)

text \<open>
  Claim C3, as amended. \<^verbatim>\<open>Reset\<close> makes no check of the number of limits. On an
  enforcing iterator it returns without a panic, leaves the context as it was (nothing is
  logged) and the iterator enforcing, rebuilds the proposed usage with the keys of the
  actual usage, and takes as applicable limit the limit of the key that the loop over the
  map visits last: the one limit when there is exactly one, one of them when there are
  several; with no limit at all the applicable limit stays as it was.
\<close>

theorem Reset_makes_no_check:
  assumes e: "enforcing (iter w)" and au: "actUsage (iter w) = Some u"
    and vis: "set visit = fst ` set (Used u)"
  shows "\<exists>w' proposed.
           Reset src visit w = Inr w' \<and> ctx w' = ctx w \<and> enforcing (iter w')
           \<and> proposedUsage (iter w') = Some proposed
           \<and> map fst (Used proposed) = map fst (Used u)
           \<and> proposedLimit (iter w')
               = (if Used u = [] then proposedLimit (iter w)
                  else map_of (Used proposed) (last visit))
           \<and> (Used u \<noteq> [] \<longrightarrow> proposedLimit (iter w') \<noteq> None)"
proof -
  define U where "U = fst (copy_used (store w) (Used u))"
  have q: "quota (iter w) \<noteq> None" using e by (simp add: enforcing_def)
  have U: "U = zip (map fst (Used u)) [free (store w)..<free (store w) + length (Used u)]"
    by (simp add: U_def copy_used_fst)
  then have keys: "map fst U = map fst (Used u)" by simp
  have known: "\<And>k. (map_of U k \<noteq> None) = (k \<in> set visit)"
    unfolding U using vis by (simp add: map_of_zip_is_None)
  have limit: "range_assign visit U (proposedLimit (iter w))
                 = (if Used u = [] then proposedLimit (iter w) else map_of U (last visit))"
  proof (cases "visit = []")
    case True
    then show ?thesis using vis by simp
  next
    case False
    then obtain ys y where ys: "visit = ys @ [y]"
      by (cases visit rule: rev_cases) auto
    have "map_of U y \<noteq> None"
      using known [of y] ys by simp
    then have "find (\<lambda>k. map_of U k \<noteq> None) (rev visit) = Some (last visit)"
      by (simp add: ys)
    moreover have "Used u \<noteq> []" using False vis by auto
    ultimately show ?thesis by (simp add: range_assign_find)
  qed
  have some: "Used u \<noteq> [] \<longrightarrow> map_of U (last visit) \<noteq> None"
  proof
    assume "Used u \<noteq> []"
    then have "visit \<noteq> []" using vis by auto
    then show "map_of U (last visit) \<noteq> None" using known by simp
  qed
  show ?thesis
    using Reset_with_quota [OF q au, of src visit] e keys limit some
    by (simp add: U_def enforcing_def)
qed

theorem Reset_makes_no_check_witness:
  "enforcing (iter (configured ''wide'' 300))
   \<and> actUsage (iter (configured ''wide'' 300))
       = Some \<lparr>QuotaUsage_Name = ''q2'', Used = [(''a'', 1), (''b'', 2)]\<rparr>
   \<and> (\<exists>w'. Reset scenario_source [''a'', ''b''] (configured ''wide'' 300) = Inr w'
          \<and> ctx w' = ctx (configured ''wide'' 300) \<and> enforcing (iter w')
          \<and> proposedLimit (iter w') \<noteq> None)"
proof -
  have h1: "enforcing (iter (configured ''wide'' 300))"
    and h2: "actUsage (iter (configured ''wide'' 300))
               = Some \<lparr>QuotaUsage_Name = ''q2'', Used = [(''a'', 1), (''b'', 2)]\<rparr>"
    by (simp_all add: scenario_defs model_defs enforcing_def)
  have h3: "set [''a'', ''b'']
              = fst ` set (Used \<lparr>QuotaUsage_Name = ''q2'', Used = [(''a'', 1), (''b'', 2)]\<rparr>)"
    by simp
  from Reset_makes_no_check [OF h1 h2 h3, of scenario_source]
  show ?thesis using h1 h2 by auto
qed

subsection \<open>Reset twice\<close>

text \<open>
  With two limits in the usage and no change of the plan, two consecutive calls of
  \<^verbatim>\<open>Reset\<close> that range over the map in different orders, as Go allows, end with
  different applicable limits, and \<^verbatim>\<open>Next\<close> rejects after the first and accepts after
  the second.
\<close>

theorem Reset_twice_differs_with_two_limits:
  "enforcing (iter (configured ''wide'' 300)) \<and> valid (configured ''wide'' 300)
   \<and> \<not> isl (Reset scenario_source [''a'', ''b''] (configured ''wide'' 300))
   \<and> \<not> isl (Reset scenario_source [''b'', ''a''] (after_reset ''wide'' 300 [''a'', ''b'']))
   \<and> Plan (ctx (after_reset ''wide'' 300 [''a'', ''b''])) = Plan (ctx (configured ''wide'' 300))
   \<and> applicable_limit (after_reset ''wide'' 300 [''a'', ''b'']) = Some (limit ''b'' 900)
   \<and> applicable_limit
        (projr (Reset scenario_source [''b'', ''a''] (after_reset ''wide'' 300 [''a'', ''b''])))
       = Some (limit ''a'' 400)
   \<and> returned (Next scenario_source (after_reset ''wide'' 300 [''a'', ''b''])) = Inr None
   \<and> returned (Next scenario_source
        (projr (Reset scenario_source [''b'', ''a''] (after_reset ''wide'' 300 [''a'', ''b'']))))
       = Inr (Some \<lparr>Node_ID = ''n0''\<rparr>)"
  by (simp add: scenario_defs model_defs enforcing_def valid_def usage_valid_def
      applicable_limit_def word_sle_eq)

text \<open>
  Claim C6, as amended. For an enforcing, well-formed iterator, two consecutive calls of
  \<^verbatim>\<open>Reset\<close> with the same plan both return, and the proposed usage after the second
  has the contents it had after the first, whatever the orders in which the two calls
  range over the map. When the usage holds exactly one limit, or when both calls visit
  the keys in the same order, the applicable limit is the same as well, and \<^verbatim>\<open>Next\<close>
  returns the same for every state \<open>s\<close> of the upstream iterator.
\<close>

theorem Reset_twice_same:
  assumes v: "valid w" and e: "enforcing (iter w)" and au: "actUsage (iter w) = Some u"
  shows "\<exists>w1 w2. Reset src visit1 w = Inr w1 \<and> Reset src visit2 w1 = Inr w2
           \<and> ctx w1 = ctx w \<and> ctx w2 = ctx w
           \<and> usage_contents (store w2) (proposedUsage (iter w2))
               = usage_contents (store w1) (proposedUsage (iter w1))
           \<and> (visit2 = visit1
                \<or> length (Used u) = 1 \<and> set visit1 = fst ` set (Used u)
                    \<and> set visit2 = fst ` set (Used u) \<longrightarrow>
               applicable_limit w2 = applicable_limit w1
               \<and> returned (Next src (w2\<lparr>source := s\<rparr>)) = returned (Next src (w1\<lparr>source := s\<rparr>)))"
proof -
  have q: "quota (iter w) \<noteq> None" using e by (simp add: enforcing_def)
  define f n plan p0 where "f = free (store w)" and "n = length (Used u)"
    and "plan = Plan (ctx w)" and "p0 = proposedLimit (iter w)"
  define U1 h1 where "U1 = fst (copy_used (store w) (Used u))"
    and "h1 = snd (copy_used (store w) (Used u))"
  define g1 where "g1 = UpdateUsageFromPlan h1 (u\<lparr>Used := U1\<rparr>) plan"
  define p1 where "p1 = range_assign visit1 U1 p0"
  define w1 where "w1 = w\<lparr>source := source_Reset src (source w), store := g1,
     iter := (iter w)\<lparr>proposedUsage := Some (u\<lparr>Used := U1\<rparr>), proposedLimit := p1\<rparr>\<rparr>"
  define U2 h2 where "U2 = fst (copy_used g1 (Used u))" and "h2 = snd (copy_used g1 (Used u))"
  define g2 where "g2 = UpdateUsageFromPlan h2 (u\<lparr>Used := U2\<rparr>) plan"
  define p2 where "p2 = range_assign visit2 U2 p1"
  define w2 where "w2 = w1\<lparr>source := source_Reset src (source w1), store := g2,
     iter := (iter w1)\<lparr>proposedUsage := Some (u\<lparr>Used := U2\<rparr>), proposedLimit := p2\<rparr>\<rparr>"
  have r1: "Reset src visit1 w = Inr w1"
    using Reset_with_quota [OF q au, of src visit1]
    by (simp add: w1_def g1_def h1_def U1_def p1_def plan_def p0_def)
  have "quota (iter w1) \<noteq> None" "actUsage (iter w1) = Some u"
    using q au by (simp_all add: w1_def)
  from Reset_with_quota [OF this, of src visit2]
  have r2: "Reset src visit2 w1 = Inr w2"
    by (simp add: w2_def g2_def h2_def U2_def p2_def plan_def w1_def)
  have valid_u: "list_all (\<lambda>(k, l). l < f) (Used u)"
    using v au by (simp add: valid_def usage_valid_def f_def)
  have free_g1: "free g1 = f + n"
    by (simp add: g1_def h1_def update_free copy_used_free f_def n_def)
  have U1: "U1 = zip (map fst (Used u)) [f..<f + n]"
    by (simp add: U1_def copy_used_fst f_def n_def)
  have U2: "U2 = zip (map fst (Used u)) [f + n..<f + n + n]"
    by (simp add: U2_def copy_used_fst free_g1 n_def)
  have shift: "U2 = map (\<lambda>(k, l). (k, l + n)) U1"
    unfolding U1 U2 using zip_upt_shift [of "map fst (Used u)" f n] by (simp add: n_def)
  have fresh1: "\<And>k l. (k, l) \<in> set U1 \<Longrightarrow> f \<le> l \<and> l < f + n"
    unfolding U1 by (auto dest: set_zip_rightD)
  have fresh2: "\<And>k l. (k, l) \<in> set U2 \<Longrightarrow> f + n \<le> l"
    unfolding U2 by (auto dest: set_zip_rightD)
  have old_g1: "\<And>l. l < f \<Longrightarrow> cells g1 l = cells (store w) l"
  proof -
    fix l assume l: "l < f"
    then have "l \<notin> snd ` set (Used (u\<lparr>Used := U1\<rparr>))" using fresh1 by fastforce
    then have "cells g1 l = cells h1 l" unfolding g1_def by (rule update_frame)
    then show "cells g1 l = cells (store w) l"
      using l by (simp add: h1_def copy_used_frame f_def)
  qed
  have old_g2: "\<And>l. l < f + n \<Longrightarrow> cells g2 l = cells g1 l"
  proof -
    fix l assume l: "l < f + n"
    then have "l \<notin> snd ` set (Used (u\<lparr>Used := U2\<rparr>))" using fresh2 by fastforce
    then have "cells g2 l = cells h2 l" unfolding g2_def by (rule update_frame)
    then show "cells g2 l = cells g1 l"
      using l by (simp add: h2_def copy_used_frame free_g1)
  qed
  have c1: "map (\<lambda>(k, l). cells h1 l) U1 = map (\<lambda>(k, l). cells (store w) l) (Used u)"
    unfolding h1_def U1_def using valid_u by (intro copy_used_contents) (simp add: f_def)
  have "list_all (\<lambda>(k, l). l < free g1) (Used u)"
    using valid_u by (auto simp add: list_all_iff free_g1)
  then have c2: "map (\<lambda>(k, l). cells h2 l) U2 = map (\<lambda>(k, l). cells g1 l) (Used u)"
    unfolding h2_def U2_def by (rule copy_used_contents)
  have "map (\<lambda>(k, l). cells g1 l) (Used u) = map (\<lambda>(k, l). cells (store w) l) (Used u)"
    using valid_u old_g1 by (auto simp add: list_all_iff)
  with c1 c2 have "map (\<lambda>(k, l). cells h2 l) U2 = map (\<lambda>(k, l). cells h1 l) U1" by simp
  then have "map (\<lambda>(k, l). cells h2 (l + n)) U1 = map (\<lambda>(k, l). cells h1 l) U1"
    by (simp add: shift case_prod_beta comp_def)
  then have before: "\<forall>l\<in>snd ` set (Used (u\<lparr>Used := U1\<rparr>)). cells h2 (l + n) = cells h1 l"
    by auto
  have "Used (u\<lparr>Used := U2\<rparr>) = map (\<lambda>(k, l). (k, l + n)) (Used (u\<lparr>Used := U1\<rparr>))"
    by (simp add: shift)
  from update_shift [OF this before, of plan]
  have after: "\<And>l. l \<in> snd ` set U1 \<Longrightarrow> cells g2 (l + n) = cells g1 l"
    by (auto simp add: g1_def g2_def)
  have contents: "usage_contents (store w2) (proposedUsage (iter w2))
                    = usage_contents (store w1) (proposedUsage (iter w1))"
    using after by (auto simp add: usage_contents_def w2_def w1_def shift case_prod_beta comp_def)
  have m: "\<And>k. map_of U2 k = map_option (\<lambda>l. l + n) (map_of U1 k)"
    by (simp add: shift map_of_map)
  have limits: "applicable_limit w2 = applicable_limit w1"
    if hits: "find (\<lambda>k. map_of U1 k \<noteq> None) (rev visit2) = find (\<lambda>k. map_of U1 k \<noteq> None) (rev visit1)"
  proof (cases "find (\<lambda>k. map_of U1 k \<noteq> None) (rev visit1)")
    case None
    then have "p1 = p0" "p2 = p0"
      using hits by (simp_all add: p1_def p2_def range_assign_find m)
    moreover have "\<And>l. p0 = Some l \<Longrightarrow> cells g2 l = cells g1 l"
      using v old_g2 by (auto simp add: valid_def p0_def f_def)
    ultimately show ?thesis
      by (cases p0) (simp_all add: applicable_limit_def w2_def w1_def)
  next
    case (Some k)
    then have "map_of U1 k \<noteq> None" by (auto dest: find_Some_iff [THEN iffD1])
    then obtain l where l: "map_of U1 k = Some l" by auto
    then have "l \<in> snd ` set U1" by (force dest: map_of_SomeD)
    then have "cells g2 (l + n) = cells g1 l" by (rule after)
    moreover have "p1 = Some l" "p2 = Some (l + n)"
      using Some hits l by (simp_all add: p1_def p2_def range_assign_find m)
    ultimately show ?thesis
      by (simp add: applicable_limit_def w2_def w1_def)
  qed
  have outcome: "returned (Next src (w2\<lparr>source := s\<rparr>)) = returned (Next src (w1\<lparr>source := s\<rparr>))"
    if "applicable_limit w2 = applicable_limit w1"
  proof -
    have "applicable_limit (w2\<lparr>source := s\<rparr>) = applicable_limit (w1\<lparr>source := s\<rparr>)"
      using that by (simp add: applicable_limit_def)
    moreover have "limit_check (iter (w2\<lparr>source := s\<rparr>)) (applicable_limit (w1\<lparr>source := s\<rparr>))
                     (fst (source_Next src s))
                   = limit_check (iter (w1\<lparr>source := s\<rparr>)) (applicable_limit (w1\<lparr>source := s\<rparr>))
                     (fst (source_Next src s))"
      by (rule limit_check_cong) (simp_all add: w2_def)
    ultimately show ?thesis
      by (simp add: Next_returned)
  qed
  have same_hits: "find (\<lambda>k. map_of U1 k \<noteq> None) (rev visit2)
                     = find (\<lambda>k. map_of U1 k \<noteq> None) (rev visit1)"
    if "visit2 = visit1 \<or> length (Used u) = 1 \<and> set visit1 = fst ` set (Used u)
                    \<and> set visit2 = fst ` set (Used u)"
    using that
  proof
    assume "visit2 = visit1"
    then show ?thesis by simp
  next
    assume a: "length (Used u) = 1 \<and> set visit1 = fst ` set (Used u)
                 \<and> set visit2 = fst ` set (Used u)"
    then obtain k0 l0 where one: "Used u = [(k0, l0)]"
      by (cases "Used u") auto
    then have "U1 = [(k0, f)]" by (simp add: U1 n_def)
    then have "(\<lambda>k. map_of U1 k \<noteq> None) = (\<lambda>k. k = k0)" by auto
    moreover have "k0 \<in> set (rev visit1)" "k0 \<in> set (rev visit2)"
      using a one by simp_all
    ultimately show ?thesis by (simp add: find_single)
  qed
  show ?thesis
    using r1 r2 contents limits outcome same_hits
    by (intro exI [of _ w1] exI [of _ w2]) (simp add: w1_def w2_def)
qed

theorem Reset_twice_same_witness:
  "valid (configured ''default'' 300) \<and> enforcing (iter (configured ''default'' 300))
   \<and> actUsage (iter (configured ''default'' 300))
       = Some \<lparr>QuotaUsage_Name = ''q'', Used = [(''h'', 0)]\<rparr>
   \<and> (\<exists>w1 w2. Reset scenario_source [''h''] (configured ''default'' 300) = Inr w1
          \<and> Reset scenario_source [''h''] w1 = Inr w2
          \<and> usage_contents (store w2) (proposedUsage (iter w2))
              = Some (''q'', [(''h'', limit ''h'' 600)])
          \<and> applicable_limit w2 = Some (limit ''h'' 600)
          \<and> returned (Next scenario_source (w2\<lparr>source := 0\<rparr>)) = Inr (Some \<lparr>Node_ID = ''n0''\<rparr>))"
proof -
  have h1: "valid (configured ''default'' 300)"
    and h2: "quota (iter (configured ''default'' 300)) \<noteq> None"
    and h3: "actUsage (iter (configured ''default'' 300))
               = Some \<lparr>QuotaUsage_Name = ''q'', Used = [(''h'', 0)]\<rparr>"
    and h4: "enforcing (iter (configured ''default'' 300))"
    by (simp_all add: scenario_defs model_defs valid_def usage_valid_def enforcing_def)
  from Reset_twice_same [OF h1 h4 h3, of scenario_source "[''h'']" "[''h'']" 0]
  obtain w1 w2 where
    r1: "Reset scenario_source [''h''] (configured ''default'' 300) = Inr w1"
    and r2: "Reset scenario_source [''h''] w1 = Inr w2"
    and c: "usage_contents (store w2) (proposedUsage (iter w2))
              = usage_contents (store w1) (proposedUsage (iter w1))"
    and l: "applicable_limit w2 = applicable_limit w1"
    and n: "returned (Next scenario_source (w2\<lparr>source := 0\<rparr>))
              = returned (Next scenario_source (w1\<lparr>source := 0\<rparr>))"
    by auto
  have w1: "w1 = after_reset ''default'' 300 [''h'']"
    using r1 by (simp add: after_reset_def)
  have "usage_contents (store w1) (proposedUsage (iter w1)) = Some (''q'', [(''h'', limit ''h'' 600)])"
    "applicable_limit w1 = Some (limit ''h'' 600)"
    "returned (Next scenario_source (w1\<lparr>source := 0\<rparr>)) = Inr (Some \<lparr>Node_ID = ''n0''\<rparr>)"
    unfolding w1
    by (simp_all add: scenario_defs model_defs usage_contents_def applicable_limit_def word_sle_eq)
  with r1 r2 c l n h1 h3 h4 show ?thesis by auto
qed

end
